theory Spec2Isabelle
  imports Main "HOL-Library.List_Lexorder" "HOL-Library.Char_ord" "HOL-Library.Sublist"
    "HOL-Library.AList"
begin

section \<open>Python string primitives\<close>

text \<open>
  Texts and paths are \<open>string\<close>s over 8-bit characters, read as ASCII. \<open>is_space\<close> is
  \<open>str.isspace\<close> (also the class \<open>\s\<close> of \<open>re\<close>) and \<open>is_word\<close> the
  class \<open>\w\<close>, both on ASCII. \<open>contains sub s\<close> is Python's \<open>sub in s\<close>.
\<close>

definition is_space :: "char \<Rightarrow> bool" where
  "is_space c = (c \<in> set [CHR '' '', CHR 0x09, CHR 0x0A, CHR 0x0B, CHR 0x0C, CHR 0x0D,
                           CHR 0x1C, CHR 0x1D, CHR 0x1E, CHR 0x1F])"

definition is_word :: "char \<Rightarrow> bool" where
  "is_word c = (let n = (of_char c :: nat) in
     (48 \<le> n \<and> n \<le> 57) \<or> (65 \<le> n \<and> n \<le> 90) \<or> (97 \<le> n \<and> n \<le> 122) \<or> n = 95)"

definition lower_char :: "char \<Rightarrow> char" where
  "lower_char c = (let n = (of_char c :: nat) in
     if 65 \<le> n \<and> n \<le> 90 then char_of (n + 32) else c)"

definition lower :: "string \<Rightarrow> string" where
  "lower s = map lower_char s"

definition lstrip_by :: "(char \<Rightarrow> bool) \<Rightarrow> string \<Rightarrow> string" where
  "lstrip_by P s = dropWhile P s"

definition rstrip_by :: "(char \<Rightarrow> bool) \<Rightarrow> string \<Rightarrow> string" where
  "rstrip_by P s = rev (dropWhile P (rev s))"

definition strip_by :: "(char \<Rightarrow> bool) \<Rightarrow> string \<Rightarrow> string" where
  "strip_by P s = lstrip_by P (rstrip_by P s)"

definition strip :: "string \<Rightarrow> string" where
  "strip s = strip_by is_space s"

definition replace_char :: "char \<Rightarrow> char \<Rightarrow> string \<Rightarrow> string" where
  "replace_char a b s = map (\<lambda>c. if c = a then b else c) s"

fun contains :: "string \<Rightarrow> string \<Rightarrow> bool" where
  "contains sub [] = (sub = [])"
| "contains sub (c # s) = (prefix sub (c # s) \<or> contains sub s)"

fun split_on :: "char \<Rightarrow> string \<Rightarrow> string list" where
  "split_on c [] = [[]]"
| "split_on c (x # xs) =
     (if x = c then [] # split_on c xs
      else (case split_on c xs of [] \<Rightarrow> [[x]] | w # ws \<Rightarrow> (x # w) # ws))"

fun join_with :: "string \<Rightarrow> string list \<Rightarrow> string" where
  "join_with sep [] = []"
| "join_with sep [x] = x"
| "join_with sep (x # y # ys) = x @ sep @ join_with sep (y # ys)"

text \<open>\<open>readlines\<close>: the text cut after every newline, the newline kept on its line.\<close>

fun readlines :: "string \<Rightarrow> string list" where
  "readlines [] = []"
| "readlines (c # s) =
     (if c = CHR 0x0A then [c] # readlines s
      else (case readlines s of [] \<Rightarrow> [[c]] | l # ls \<Rightarrow> (c # l) # ls))"

section \<open>Paths (\<open>posixpath\<close>)\<close>

definition path_join :: "string \<Rightarrow> string \<Rightarrow> string" where
  "path_join a b =
     (if prefix ''/'' b then b
      else if a = [] \<or> suffix ''/'' a then a @ b
      else a @ ''/'' @ b)"

definition basename :: "string \<Rightarrow> string" where
  "basename p = rev (takeWhile (\<lambda>c. c \<noteq> CHR ''/'') (rev p))"

definition dirname :: "string \<Rightarrow> string" where
  "dirname p =
     (let head = rev (dropWhile (\<lambda>c. c \<noteq> CHR ''/'') (rev p))
      in if head \<noteq> [] \<and> list_ex (\<lambda>c. c \<noteq> CHR ''/'') head
         then rstrip_by (\<lambda>c. c = CHR ''/'') head else head)"

definition splitext :: "string \<Rightarrow> string \<times> string" where
  "splitext p =
     (let b = basename p
      in if CHR ''.'' \<notin> set b then (p, [])
         else (let ext = CHR ''.'' # rev (takeWhile (\<lambda>c. c \<noteq> CHR ''.'') (rev b));
                   stem = take (length b - length ext) b
               in if list_ex (\<lambda>c. c \<noteq> CHR ''.'') stem
                  then (take (length p - length ext) p, ext) else (p, [])))"

text \<open>
  The loop of \<open>normpath\<close> over the components; \<open>new_comps\<close> is kept reversed, its head
  being Python's \<open>new_comps[-1]\<close>.
\<close>

fun norm_comps :: "bool \<Rightarrow> string list \<Rightarrow> string list \<Rightarrow> string list" where
  "norm_comps initial_slashes [] new_comps = rev new_comps"
| "norm_comps initial_slashes (cp # comps) new_comps =
     (if cp = [] \<or> cp = ''.'' then norm_comps initial_slashes comps new_comps
      else if cp \<noteq> ''..'' \<or> (\<not> initial_slashes \<and> new_comps = [])
              \<or> (new_comps \<noteq> [] \<and> hd new_comps = ''..'')
           then norm_comps initial_slashes comps (cp # new_comps)
      else if new_comps \<noteq> [] then norm_comps initial_slashes comps (tl new_comps)
      else norm_comps initial_slashes comps new_comps)"

definition normpath :: "string \<Rightarrow> string" where
  "normpath path =
     (if path = [] then ''.''
      else (let initial_slashes =
                  (if prefix ''/'' path
                   then (if prefix ''//'' path \<and> \<not> prefix ''///'' path then 2 else 1)
                   else (0::nat));
                comps = norm_comps (initial_slashes \<noteq> 0) (split_on CHR ''/'' path) [];
                p = replicate initial_slashes CHR ''/'' @ join_with ''/'' comps
            in if p = [] then ''.'' else p))"

section \<open>\<open>fnmatch\<close>\<close>

text \<open>
  \<open>fnmatch.fnmatch name patt\<close> on POSIX, for patterns made of \<open>*\<close>, \<open>?\<close> and literal
  characters (the configured patterns hold no bracket class): the whole name must match.
\<close>

fun fnmatch :: "string \<Rightarrow> string \<Rightarrow> bool" where
  "fnmatch [] [] = True"
| "fnmatch (c # name) [] = False"
| "fnmatch name (p # patt) =
     (if p = CHR ''*''
      then (fnmatch name patt \<or> (case name of [] \<Rightarrow> False | _ # name' \<Rightarrow> fnmatch name' (p # patt)))
      else (case name of [] \<Rightarrow> False
            | c # name' \<Rightarrow> (p = CHR ''?'' \<or> p = c) \<and> fnmatch name' patt))"

section \<open>Configuration\<close>

datatype lang = javascript | typescript | python | java | csharp | cpp | go | php

definition file_extensions_map :: "(lang \<times> string list) list" where
  "file_extensions_map =
     [(javascript, [''.js'', ''.jsx'', ''.mjs'', ''.cjs'']),
      (typescript, [''.ts'', ''.tsx'']),
      (python, [''.py'']),
      (java, [''.java'']),
      (csharp, [''.cs'']),
      (cpp, [''.c'', ''.cpp'', ''.cc'', ''.cxx'', ''.h'', ''.hpp'']),
      (go, [''.go'']),
      (php, [''.php''])]"

text \<open>
  \<open>CFG_project_root\<close> is the configured value \<open>CFG["project_root"]\<close>. The global
  \<open>PROJECT_ROOT\<close> is set from it when the module is loaded, by a test on the file
  system; it is defined with the file system below.
\<close>

definition CFG_project_root :: string where "CFG_project_root = ''src''"
definition BACKUP_DIR :: string where "BACKUP_DIR = ''backup_snapshots''"
definition EXCLUDED_DIRS :: "string list" where
  "EXCLUDED_DIRS = [''node_modules'', ''.git'', ''dist'', ''build'', ''coverage'', ''.next'']"
definition SAFE_MODE :: bool where "SAFE_MODE = True"
definition SKIP_PATTERNS :: "string list" where
  "SKIP_PATTERNS = [''.d.ts'', ''.spec.'', ''.test.*'']"
definition ALLOW_UNDO_COUNT :: nat where "ALLOW_UNDO_COUNT = 12"

text \<open>\<open>EXT_LANG_MAP\<close>: the flat dictionary from extension to language.\<close>

definition EXT_LANG_MAP :: "string \<rightharpoonup> lang" where
  "EXT_LANG_MAP = map_of (concat (map (\<lambda>(l, exts). map (\<lambda>e. (e, l)) exts) file_extensions_map))"

definition detect_language_for_file :: "string \<Rightarrow> lang option" where
  "detect_language_for_file path = EXT_LANG_MAP (snd (splitext path))"

section \<open>Import patterns\<close>

text \<open>
  The regular expressions of the handlers use literals, character classes under \<open>+\<close>,
  \<open>*\<close> and \<open>*?\<close>, an optional character, an alternation of literals, \<open>^\<close> under
  \<open>re.M\<close>, \<open>\b\<close> and unnested capturing groups. A pattern is the list of these items in
  the order of the source text; \<open>rmatch\<close> is the backtracking matcher at one position
  (greedy items try the longest run first), \<open>finditer\<close> scans for the leftmost matches
  without overlap and \<open>search\<close> gives the first of them.
\<close>

datatype cset = Chars string | Space | Word | Any | Neg cset | Union cset cset

fun in_cset :: "cset \<Rightarrow> char \<Rightarrow> bool" where
  "in_cset (Chars cs) c = (c \<in> set cs)"
| "in_cset Space c = is_space c"
| "in_cset Word c = is_word c"
| "in_cset Any c = True"
| "in_cset (Neg s) c = (\<not> in_cset s c)"
| "in_cset (Union s t) c = (in_cset s c \<or> in_cset t c)"

datatype item = Lit string | One cset | Plus cset | Star cset | LazyStar cset | Opt char
  | Alt "string list" | Bol | Wordb | GOpen | GClose

text \<open>
  The state of a match: the text matched so far (\<open>group(0)\<close>), the closed groups in
  order, and the text of the group that is open, if one is.
\<close>

record mstate =
  whole :: string
  closed :: "string list"
  cur :: "string option"

record rmatch_result =
  group0 :: string
  groups :: "string list"

definition eat :: "string \<Rightarrow> mstate \<Rightarrow> mstate" where
  "eat t m = m\<lparr>whole := whole m @ t, cur := map_option (\<lambda>g. g @ t) (cur m)\<rparr>"

definition at_word_boundary :: "char option \<Rightarrow> string \<Rightarrow> bool" where
  "at_word_boundary prev s =
     ((case prev of None \<Rightarrow> False | Some c \<Rightarrow> is_word c)
      \<noteq> (case s of [] \<Rightarrow> False | c # _ \<Rightarrow> is_word c))"

definition new_prev :: "char option \<Rightarrow> string \<Rightarrow> char option" where
  "new_prev prev t = (if t = [] then prev else Some (last t))"

fun first_some :: "'a option list \<Rightarrow> 'a option" where
  "first_some [] = None"
| "first_some (None # xs) = first_some xs"
| "first_some (Some x # xs) = Some x"

fun rmatch :: "item list \<Rightarrow> char option \<Rightarrow> string \<Rightarrow> mstate \<Rightarrow> rmatch_result option" where
  "rmatch [] prev s m = Some \<lparr>group0 = whole m, groups = closed m\<rparr>"
| "rmatch (Lit t # its) prev s m =
     (if prefix t s then rmatch its (new_prev prev t) (drop (length t) s) (eat t m) else None)"
| "rmatch (One cs # its) prev s m =
     (case s of [] \<Rightarrow> None
      | c # s' \<Rightarrow> if in_cset cs c then rmatch its (Some c) s' (eat [c] m) else None)"
| "rmatch (Plus cs # its) prev s m =
     (case s of [] \<Rightarrow> None
      | c # s' \<Rightarrow> if in_cset cs c then rmatch (Star cs # its) (Some c) s' (eat [c] m) else None)"
| "rmatch (Star cs # its) prev s m =
     (case s of [] \<Rightarrow> rmatch its prev s m
      | c # s' \<Rightarrow>
          if in_cset cs c
          then (case rmatch (Star cs # its) (Some c) s' (eat [c] m) of
                  Some r \<Rightarrow> Some r
                | None \<Rightarrow> rmatch its prev s m)
          else rmatch its prev s m)"
| "rmatch (LazyStar cs # its) prev s m =
     (case rmatch its prev s m of
        Some r \<Rightarrow> Some r
      | None \<Rightarrow>
          (case s of [] \<Rightarrow> None
           | c # s' \<Rightarrow> if in_cset cs c
                       then rmatch (LazyStar cs # its) (Some c) s' (eat [c] m) else None))"
| "rmatch (Opt c # its) prev s m =
     (case (if prefix [c] s then rmatch its (Some c) (tl s) (eat [c] m) else None) of
        Some r \<Rightarrow> Some r
      | None \<Rightarrow> rmatch its prev s m)"
| "rmatch (Alt ts # its) prev s m =
     first_some (map (\<lambda>t. if prefix t s
                           then rmatch its (new_prev prev t) (drop (length t) s) (eat t m)
                           else None) ts)"
| "rmatch (Bol # its) prev s m =
     (if prev = None \<or> prev = Some (CHR 0x0A) then rmatch its prev s m else None)"
| "rmatch (Wordb # its) prev s m =
     (if at_word_boundary prev s then rmatch its prev s m else None)"
| "rmatch (GOpen # its) prev s m = rmatch its prev s (m\<lparr>cur := Some []\<rparr>)"
| "rmatch (GClose # its) prev s m =
     rmatch its prev s (m\<lparr>closed := closed m @ [case cur m of None \<Rightarrow> [] | Some g \<Rightarrow> g],
                             cur := None\<rparr>)"

definition match_at :: "item list \<Rightarrow> char option \<Rightarrow> string \<Rightarrow> rmatch_result option" where
  "match_at its prev s = rmatch its prev s \<lparr>whole = [], closed = [], cur = None\<rparr>"

text \<open>
  \<open>skip\<close> counts the characters of the text that the last match still covers; no match
  starts inside it.
\<close>

fun finditer_from :: "item list \<Rightarrow> char option \<Rightarrow> string \<Rightarrow> nat \<Rightarrow> rmatch_result list" where
  "finditer_from its prev [] skip =
     (if skip = 0 then (case match_at its prev [] of None \<Rightarrow> [] | Some r \<Rightarrow> [r]) else [])"
| "finditer_from its prev (c # s) skip =
     (if 0 < skip then finditer_from its (Some c) s (skip - 1)
      else (case match_at its prev (c # s) of
              None \<Rightarrow> finditer_from its (Some c) s 0
            | Some r \<Rightarrow> r # finditer_from its (Some c) s (length (group0 r) - 1)))"

definition finditer :: "item list \<Rightarrow> string \<Rightarrow> rmatch_result list" where
  "finditer rx text = finditer_from rx None text 0"

definition search :: "item list \<Rightarrow> string \<Rightarrow> rmatch_result option" where
  "search rx text = (case finditer rx text of [] \<Rightarrow> None | r # _ \<Rightarrow> Some r)"

text \<open>\<open>m.lastindex\<close> and \<open>m.group(1)\<close>; every group of these patterns takes part in a match.\<close>

definition lastindex :: "rmatch_result \<Rightarrow> nat option" where
  "lastindex r = (if groups r = [] then None else Some (length (groups r)))"

definition group1 :: "rmatch_result \<Rightarrow> string option" where
  "group1 r = (case groups r of [] \<Rightarrow> None | g # _ \<Rightarrow> Some g)"

definition quote :: cset where
  "quote = Chars [CHR 0x27, CHR 0x22]"

definition JS_IMPORTS :: "item list list" where
  "JS_IMPORTS =
     [[Lit ''import'', Plus Space, Plus (Neg quote), Lit ''from'', Plus Space,
       One quote, GOpen, Plus (Neg quote), GClose, One quote],
      [Lit ''require('', Star Space, One quote, GOpen, Plus (Neg quote), GClose, One quote,
       Star Space, Lit '')''],
      [Lit ''import('', Star Space, One quote, GOpen, Plus (Neg quote), GClose, One quote,
       Star Space, Lit '')'']]"

definition TS_IMPORTS :: "item list list" where
  "TS_IMPORTS = JS_IMPORTS"

definition PY_IMPORTS :: "item list list" where
  "PY_IMPORTS =
     [[Bol, Star Space, Lit ''from'', Plus Space, GOpen, Plus (Union Word (Chars ''.'')), GClose,
       Plus Space, Lit ''import''],
      [Bol, Star Space, Lit ''import'', Plus Space, GOpen, Plus (Union Word (Chars ''.'')), GClose]]"

definition CSHARP_IMPORTS :: "item list list" where
  "CSHARP_IMPORTS =
     [[Bol, Star Space, Lit ''using'', Plus Space, GOpen, Plus (Union Word (Chars ''.'')), GClose,
       Star Space, Lit '';'']]"

definition CPP_IMPORTS :: "item list list" where
  "CPP_IMPORTS =
     [[Bol, Star Space, Lit ''#include'', Plus Space, One (Chars [CHR 0x22, CHR ''<'']),
       GOpen, Plus (Neg (Chars [CHR 0x22, CHR ''>''])), GClose, One (Chars [CHR 0x22, CHR ''>''])]]"

definition GO_IMPORTS :: "item list list" where
  "GO_IMPORTS =
     [[Lit ''import'', Plus Space, Opt (CHR ''(''), Star Space, One quote,
       GOpen, Plus (Neg quote), GClose, One quote],
      [Wordb, Lit ''import'', Star Space, Lit ''('', LazyStar Any, Lit '')'']]"

definition PHP_IMPORTS :: "item list list" where
  "PHP_IMPORTS =
     [[Alt [''require_once'', ''require'', ''include_once'', ''include''], Star Space,
       Opt (CHR ''(''), Star Space, One quote, GOpen, Plus (Neg quote), GClose, One quote,
       Star Space, Opt (CHR '')'')]]"

text \<open>The pattern of the Go import block that \<open>analyze_project\<close> scans on its own.\<close>

definition GO_BLOCK :: "item list" where
  "GO_BLOCK = [Lit ''import'', Star Space, Lit ''('', GOpen, LazyStar Any, GClose, Lit '')'']"

section \<open>Language handlers\<close>

record handler =
  name :: lang
  extensions :: "string list"
  import_regexes :: "item list list"

definition exts_of :: "lang \<Rightarrow> string list" where
  "exts_of l = (case map_of file_extensions_map l of None \<Rightarrow> [] | Some es \<Rightarrow> es)"

text \<open>
  The pattern text of \<open>JAVA_IMPORTS\<close> in the source has an unclosed character class,
  so its compiled form is not determined by the source; the table of handlers takes the
  compiled Java patterns as its argument. The other seven entries are the source's.
\<close>

definition LANG_HANDLERS :: "item list list \<Rightarrow> lang \<Rightarrow> handler" where
  "LANG_HANDLERS JAVA_IMPORTS l =
     \<lparr>name = l, extensions = exts_of l,
      import_regexes =
        (case l of javascript \<Rightarrow> JS_IMPORTS | typescript \<Rightarrow> TS_IMPORTS | python \<Rightarrow> PY_IMPORTS
         | java \<Rightarrow> JAVA_IMPORTS | csharp \<Rightarrow> CSHARP_IMPORTS | cpp \<Rightarrow> CPP_IMPORTS
         | go \<Rightarrow> GO_IMPORTS | php \<Rightarrow> PHP_IMPORTS)\<rparr>"

text \<open>
  \<open>extract_imports\<close>: for every match of every pattern, the first non-empty group, or
  the whole match when the pattern has no group; empty results are dropped.
\<close>

definition first_nonempty :: "string list \<Rightarrow> string option" where
  "first_nonempty gs = find (\<lambda>g. g \<noteq> []) gs"

definition match_specifier :: "rmatch_result \<Rightarrow> string option" where
  "match_specifier r =
     (case lastindex r of
        Some n \<Rightarrow> first_nonempty (take n (groups r))
      | None \<Rightarrow> Some (group0 r))"

definition extract_imports :: "handler \<Rightarrow> string \<Rightarrow> string list" where
  "extract_imports h file_text =
     concat (map (\<lambda>rx. concat (map (\<lambda>r. case match_specifier r of
                                           None \<Rightarrow> []
                                         | Some g \<Rightarrow> if g \<noteq> [] then [g] else [])
                                    (finditer rx file_text)))
                 (import_regexes h))"

text \<open>
  \<open>resolve_import\<close>. \<open>probe\<close> is the loop over the extensions that tries the
  candidate with the extension and the index file in the candidate; \<open>probe_ns\<close> is the
  loop of the namespace branch.
\<close>

fun probe :: "string \<Rightarrow> string list \<Rightarrow> string set \<Rightarrow> string option" where
  "probe candidate [] all_files_set = None"
| "probe candidate (ext # exts) all_files_set =
     (let c_ext = (if suffix ext candidate then candidate else candidate @ ext);
          idx = path_join candidate (''index'' @ ext)
      in if normpath c_ext \<in> all_files_set then Some (normpath c_ext)
         else if normpath idx \<in> all_files_set then Some (normpath idx)
         else probe candidate exts all_files_set)"

fun probe_ns :: "string \<Rightarrow> string list \<Rightarrow> string set \<Rightarrow> string option" where
  "probe_ns candidate [] all_files_set = None"
| "probe_ns candidate (ext # exts) all_files_set =
     (let c_ext = candidate @ ext
      in if normpath c_ext \<in> all_files_set then Some (normpath c_ext)
         else probe_ns candidate exts all_files_set)"

definition resolve_import :: "string \<Rightarrow> handler \<Rightarrow> string \<Rightarrow> string \<Rightarrow> string set \<Rightarrow> string option" where
  "resolve_import pr h base_file imp0 all_files_set =
     (let imp1 = strip imp0
      in if imp1 = [] then None
         else (let imp = strip_by (\<lambda>c. c = CHR 0x22 \<or> c = CHR 0x27) imp1
               in if prefix ''.'' imp \<or> prefix ''/'' imp
                  then (let base_dir = dirname base_file;
                            candidate = normpath (path_join base_dir imp)
                        in case probe candidate (extensions h) all_files_set of
                             Some t \<Rightarrow> Some t
                           | None \<Rightarrow> if normpath candidate \<in> all_files_set
                                     then Some (normpath candidate) else None)
                  else (case (if CHR ''/'' \<in> set imp
                              then probe (normpath (path_join pr imp)) (extensions h)
                                     all_files_set
                              else None) of
                          Some t \<Rightarrow> Some t
                        | None \<Rightarrow>
                            if CHR ''.'' \<in> set imp \<and> (name h = java \<or> name h = csharp)
                            then probe_ns (normpath (path_join pr
                                                      (replace_char CHR ''.'' CHR ''/'' imp)))
                                   (extensions h) all_files_set
                            else None)))"

section \<open>The file system\<close>

text \<open>
  The working directory is a tree: a file holds its text and its modification time, a
  directory the list of its entries in listing order. Paths are relative to the working
  directory; an absolute path, the empty path and a path that climbs above the working
  directory name nothing in the tree. There are no symbolic links, and an operation fails
  only where the tree makes it fail (a missing entry, a file in place of a directory, an
  existing destination, a copy of a directory into itself). An operation that fails
  leaves the tree as it was; what a copy has written before it fails is not kept. The
  cache file is kept beside the tree, already parsed:
  \<open>Malformed\<close> stands for every content that \<open>json.load\<close> or the reading of the
  entries rejects; the directory of the logs is left out as well.
\<close>

datatype node = File string int | Dir "(string \<times> node) list"

datatype cache_file = Malformed | Cache string "(string \<times> int) list"

record world =
  tree :: node
  cache :: "cache_file option"
  cwd :: string

definition fs_path :: "string \<Rightarrow> string list option" where
  "fs_path p =
     (if p = [] \<or> prefix ''/'' p then None
      else (let cs = filter (\<lambda>c. c \<noteq> [] \<and> c \<noteq> ''.'') (split_on CHR ''/'' (normpath p))
            in if ''..'' \<in> set cs then None else Some cs))"

fun lookup :: "node \<Rightarrow> string list \<Rightarrow> node option" where
  "lookup n [] = Some n"
| "lookup n (c # cs) =
     (case n of File _ _ \<Rightarrow> None
      | Dir es \<Rightarrow> (case map_of es c of None \<Rightarrow> None | Some e \<Rightarrow> lookup e cs))"

text \<open>\<open>put\<close> stores a node under an existing parent directory, replacing what is there.\<close>

fun put :: "string list \<Rightarrow> node \<Rightarrow> node \<Rightarrow> node option" where
  "put [] new n = None"
| "put [c] new n =
     (case n of File _ _ \<Rightarrow> None | Dir es \<Rightarrow> Some (Dir (AList.update c new es)))"
| "put (c # c' # cs) new n =
     (case n of File _ _ \<Rightarrow> None
      | Dir es \<Rightarrow>
          (case map_of es c of None \<Rightarrow> None
           | Some e \<Rightarrow> (case put (c' # cs) new e of None \<Rightarrow> None
                        | Some e' \<Rightarrow> Some (Dir (AList.update c e' es)))))"

text \<open>
  \<open>put_new\<close> is \<open>os.makedirs\<close> followed by filling the new directory: the missing
  parents are created, and the destination itself must not exist.
\<close>

fun put_new :: "string list \<Rightarrow> node \<Rightarrow> node \<Rightarrow> node option" where
  "put_new [] new n = None"
| "put_new [c] new n =
     (case n of File _ _ \<Rightarrow> None
      | Dir es \<Rightarrow> (case map_of es c of None \<Rightarrow> Some (Dir (AList.update c new es))
                   | Some _ \<Rightarrow> None))"
| "put_new (c # c' # cs) new n =
     (case n of File _ _ \<Rightarrow> None
      | Dir es \<Rightarrow>
          (case put_new (c' # cs) new (case map_of es c of None \<Rightarrow> Dir [] | Some e \<Rightarrow> e) of
             None \<Rightarrow> None
           | Some e' \<Rightarrow> Some (Dir (AList.update c e' es))))"

fun remove_at :: "string list \<Rightarrow> node \<Rightarrow> node option" where
  "remove_at [] n = None"
| "remove_at [c] n =
     (case n of File _ _ \<Rightarrow> None
      | Dir es \<Rightarrow> (case map_of es c of None \<Rightarrow> None
                   | Some _ \<Rightarrow> Some (Dir (AList.delete c es))))"
| "remove_at (c # c' # cs) n =
     (case n of File _ _ \<Rightarrow> None
      | Dir es \<Rightarrow>
          (case map_of es c of None \<Rightarrow> None
           | Some e \<Rightarrow> (case remove_at (c' # cs) e of None \<Rightarrow> None
                        | Some e' \<Rightarrow> Some (Dir (AList.update c e' es)))))"

definition node_at :: "node \<Rightarrow> string \<Rightarrow> node option" where
  "node_at t p = (case fs_path p of None \<Rightarrow> None | Some cs \<Rightarrow> lookup t cs)"

definition path_exists :: "node \<Rightarrow> string \<Rightarrow> bool" where
  "path_exists t p = (node_at t p \<noteq> None)"

definition isdir :: "node \<Rightarrow> string \<Rightarrow> bool" where
  "isdir t p = (case node_at t p of Some (Dir _) \<Rightarrow> True | _ \<Rightarrow> False)"

text \<open>
  The global \<open>PROJECT_ROOT\<close>: the configured root, or the working directory when the
  configured root is not a directory at the time the module is loaded (\<open>t\<close> is the tree
  at that time; the module also creates the directories of the logs and of the backups
  when they are missing, which does not change this test). The module does not assign it
  again, so every function that reads the global takes its value as the argument \<open>pr\<close>.
\<close>

definition PROJECT_ROOT :: "node \<Rightarrow> string" where
  "PROJECT_ROOT t = (if isdir t CFG_project_root then CFG_project_root else ''.'')"

definition read_file :: "node \<Rightarrow> string \<Rightarrow> string option" where
  "read_file t p = (case node_at t p of Some (File c _) \<Rightarrow> Some c | _ \<Rightarrow> None)"

definition getmtime :: "node \<Rightarrow> string \<Rightarrow> int option" where
  "getmtime t p = (case node_at t p of Some (File _ m) \<Rightarrow> Some m | _ \<Rightarrow> None)"

definition listdir :: "node \<Rightarrow> string \<Rightarrow> string list option" where
  "listdir t p = (case node_at t p of Some (Dir es) \<Rightarrow> Some (map fst es) | _ \<Rightarrow> None)"

text \<open>\<open>write_file t p text now\<close> is \<open>open(p, "w")\<close> and the write, at the time \<open>now\<close>.\<close>

definition write_file :: "node \<Rightarrow> string \<Rightarrow> string \<Rightarrow> int \<Rightarrow> node option" where
  "write_file t p txt now =
     (case fs_path p of None \<Rightarrow> None
      | Some cs \<Rightarrow> (case lookup t cs of Some (Dir _) \<Rightarrow> None | _ \<Rightarrow> put cs (File txt now) t))"

definition os_remove :: "node \<Rightarrow> string \<Rightarrow> node option" where
  "os_remove t p =
     (case fs_path p of None \<Rightarrow> None
      | Some cs \<Rightarrow> (case lookup t cs of Some (File _ _) \<Rightarrow> remove_at cs t | _ \<Rightarrow> None))"

definition rmtree :: "node \<Rightarrow> string \<Rightarrow> node option" where
  "rmtree t p =
     (case fs_path p of None \<Rightarrow> None
      | Some cs \<Rightarrow> (case lookup t cs of Some (Dir _) \<Rightarrow> remove_at cs t | _ \<Rightarrow> None))"

definition copytree :: "node \<Rightarrow> string \<Rightarrow> string \<Rightarrow> node option" where
  "copytree t src dst =
     (case (fs_path src, fs_path dst) of
        (Some s, Some d) \<Rightarrow>
          (case lookup t s of
             Some (Dir es) \<Rightarrow> if prefix s d then None else put_new d (Dir es) t
           | _ \<Rightarrow> None)
      | _ \<Rightarrow> None)"

definition copy2 :: "node \<Rightarrow> string \<Rightarrow> string \<Rightarrow> node option" where
  "copy2 t src dst =
     (case (fs_path src, fs_path dst) of
        (Some s, Some d) \<Rightarrow>
          (case lookup t s of
             Some (File c m) \<Rightarrow>
               (case lookup t d of
                  Some (Dir _) \<Rightarrow> put (d @ [basename src]) (File c m) t
                | _ \<Rightarrow> put d (File c m) t)
           | _ \<Rightarrow> None)
      | _ \<Rightarrow> None)"

text \<open>
  \<open>os.rename\<close>: the source must exist and must not be the working directory; a name
  renamed to itself stays; the destination must not lie in the source nor hold it, its
  parent must be a directory, and what is at the destination is replaced when it is a
  file (for a file) or an empty directory (for a directory).
\<close>

definition os_rename :: "node \<Rightarrow> string \<Rightarrow> string \<Rightarrow> node option" where
  "os_rename t src dst =
     (case (fs_path src, fs_path dst) of
        (Some s, Some d) \<Rightarrow>
          (case lookup t s of
             None \<Rightarrow> None
           | Some n \<Rightarrow>
               if s = [] \<or> d = [] then None
               else if s = d then Some t
               else if prefix s d \<or> prefix d s then None
               else if (case (n, lookup t d) of
                          (_, None) \<Rightarrow> True
                        | (File _ _, Some (File _ _)) \<Rightarrow> True
                        | (Dir _, Some (Dir es)) \<Rightarrow> es = []
                        | _ \<Rightarrow> False)
                    then (case remove_at s t of None \<Rightarrow> None | Some t1 \<Rightarrow> put d n t1)
               else None)
      | _ \<Rightarrow> None)"

definition samefile :: "node \<Rightarrow> string \<Rightarrow> string \<Rightarrow> bool" where
  "samefile t a b = (path_exists t a \<and> path_exists t b \<and> fs_path a = fs_path b)"

text \<open>\<open>_destinsrc\<close> of \<open>shutil\<close>, on the absolute paths; \<open>c\<close> is the working directory.\<close>

definition with_sep :: "string \<Rightarrow> string" where
  "with_sep p = (if suffix ''/'' p then p else p @ ''/'')"

definition destinsrc :: "string \<Rightarrow> string \<Rightarrow> string \<Rightarrow> bool" where
  "destinsrc c src dst =
     prefix (with_sep (normpath (path_join c src))) (with_sep (normpath (path_join c dst)))"

text \<open>
  \<open>shutil.move\<close>. The result says whether it returned (\<open>True\<close>) or raised, and gives
  the tree it leaves. \<open>move_fallback\<close> is its handler of the \<open>OSError\<close> of the rename:
  copy and delete.
\<close>

definition move_fallback :: "string \<Rightarrow> node \<Rightarrow> string \<Rightarrow> string \<Rightarrow> string \<Rightarrow> bool \<times> node" where
  "move_fallback c t src dst real_dst =
     (if isdir t src
      then (if destinsrc c src dst then (False, t)
            else (case copytree t src real_dst of
                    None \<Rightarrow> (False, t)
                  | Some t1 \<Rightarrow> (case rmtree t1 src of None \<Rightarrow> (False, t1) | Some t2 \<Rightarrow> (True, t2))))
      else (case copy2 t src real_dst of
              None \<Rightarrow> (False, t)
            | Some t1 \<Rightarrow> (case os_remove t1 src of None \<Rightarrow> (False, t1) | Some t2 \<Rightarrow> (True, t2))))"

definition shutil_move :: "string \<Rightarrow> node \<Rightarrow> string \<Rightarrow> string \<Rightarrow> bool \<times> node" where
  "shutil_move c t src dst =
     (if isdir t dst \<and> samefile t src dst
      then (case os_rename t src dst of None \<Rightarrow> (False, t) | Some t1 \<Rightarrow> (True, t1))
      else (let real_dst = (if isdir t dst
                            then path_join dst (basename (rstrip_by (\<lambda>c. c = CHR ''/'') src))
                            else dst)
            in if isdir t dst \<and> path_exists t real_dst then (False, t)
               else (case os_rename t src real_dst of
                       Some t1 \<Rightarrow> (True, t1)
                     | None \<Rightarrow> move_fallback c t src dst real_dst)))"

text \<open>
  \<open>os.path.relpath path start\<close> in the working directory \<open>c\<close>, and \<open>str.replace\<close>:
  \<open>skip\<close> counts the characters that the last occurrence still covers.
\<close>

definition abs_parts :: "string \<Rightarrow> string \<Rightarrow> string list" where
  "abs_parts c p = filter (\<lambda>x. x \<noteq> []) (split_on CHR ''/'' (normpath (path_join c p)))"

definition relpath :: "string \<Rightarrow> string \<Rightarrow> string \<Rightarrow> string" where
  "relpath c path start =
     (let start_list = abs_parts c start;
          path_list = abs_parts c path;
          i = length (longest_common_prefix start_list path_list);
          rel_list = replicate (length start_list - i) ''..'' @ drop i path_list
      in if rel_list = [] then ''.'' else join_with ''/'' rel_list)"

fun replace_from :: "string \<Rightarrow> string \<Rightarrow> string \<Rightarrow> nat \<Rightarrow> string" where
  "replace_from old new [] skip = []"
| "replace_from old new (c # s) skip =
     (if 0 < skip then replace_from old new s (skip - 1)
      else if prefix old (c # s) then new @ replace_from old new s (length old - 1)
      else c # replace_from old new s 0)"

definition str_replace :: "string \<Rightarrow> string \<Rightarrow> string \<Rightarrow> string" where
  "str_replace old new s =
     (if old = [] then new @ concat (map (\<lambda>c. c # new) s) else replace_from old new s 0)"

section \<open>Scanning with a cache\<close>

definition is_skipped :: "string \<Rightarrow> bool" where
  "is_skipped nm = list_ex (\<lambda>patt. fnmatch nm patt) SKIP_PATTERNS"

definition is_kept :: "string \<Rightarrow> bool" where
  "is_kept nm = (\<not> is_skipped nm \<and> EXT_LANG_MAP (snd (splitext nm)) \<noteq> None)"

text \<open>
  The loop over \<open>os.walk(root, topdown=True)\<close>: the kept files of a directory first,
  then its directories that are not excluded, in listing order.
\<close>

fun walk :: "string \<Rightarrow> node \<Rightarrow> string list" where
  "walk r (File c m) = []"
| "walk r (Dir es) =
     concat (map (\<lambda>(nm, n). case n of
                     File _ _ \<Rightarrow> if is_kept nm then [normpath (path_join r nm)] else []
                   | Dir _ \<Rightarrow> []) es)
     @ concat (map (\<lambda>(nm, n). case n of
                       File _ _ \<Rightarrow> []
                     | Dir _ \<Rightarrow> if nm \<in> set EXCLUDED_DIRS then [] else walk (path_join r nm) n) es)"

definition walk_root :: "node \<Rightarrow> string \<Rightarrow> string list" where
  "walk_root t root = (case node_at t root of Some (Dir es) \<Rightarrow> walk root (Dir es) | _ \<Rightarrow> [])"

definition abspath :: "world \<Rightarrow> string \<Rightarrow> string" where
  "abspath w p = normpath (path_join (cwd w) p)"

text \<open>The check of the cached entries, in order, stopping at the first that fails.\<close>

fun entries_ok :: "node \<Rightarrow> (string \<times> int) list \<Rightarrow> bool" where
  "entries_ok t [] = True"
| "entries_ok t ((p, m) # es) =
     (if p = [] \<or> \<not> path_exists t p then False
      else if getmtime t p \<noteq> Some m then False
      else entries_ok t es)"

text \<open>The first block of \<open>build_file_list\<close>: \<open>Some\<close> is its early return.\<close>

definition cache_lookup :: "string \<Rightarrow> bool \<Rightarrow> world \<Rightarrow> string list option" where
  "cache_lookup root use_cache w =
     (if use_cache
      then (case cache w of
              Some (Cache croot entries) \<Rightarrow>
                if croot = abspath w root \<and> entries_ok (tree w) entries
                then Some (map fst entries) else None
            | _ \<Rightarrow> None)
      else None)"

definition build_file_list :: "string \<Rightarrow> bool \<Rightarrow> world \<Rightarrow> string list \<times> world" where
  "build_file_list root use_cache w =
     (case cache_lookup root use_cache w of
        Some files \<Rightarrow> (files, w)
      | None \<Rightarrow>
          (let files = walk_root (tree w) root;
               entries = map (\<lambda>p. (p, case getmtime (tree w) p of Some m \<Rightarrow> m | None \<Rightarrow> 0)) files
           in (files, w\<lparr>cache := Some (Cache (abspath w root) entries)\<rparr>)))"

section \<open>The dependency graph\<close>

text \<open>\<open>str.splitlines\<close> on the ASCII line boundaries.\<close>

definition is_linebreak :: "char \<Rightarrow> bool" where
  "is_linebreak c = (c \<in> set [CHR 0x0A, CHR 0x0D, CHR 0x0B, CHR 0x0C, CHR 0x1C, CHR 0x1D, CHR 0x1E])"

fun splitlines :: "string \<Rightarrow> string list" where
  "splitlines [] = []"
| "splitlines (c # s) =
     (if c = CHR 0x0D \<and> prefix [CHR 0x0A] s then [] # splitlines (tl s)
      else if is_linebreak c then [] # splitlines s
      else (case splitlines s of [] \<Rightarrow> [[c]] | l # ls \<Rightarrow> (c # l) # ls))"

definition go_block_imports :: "string \<Rightarrow> string list" where
  "go_block_imports text =
     concat (map (\<lambda>r. case group1 r of
                         None \<Rightarrow> []
                       | Some block \<Rightarrow>
                           filter (\<lambda>s. s \<noteq> [])
                             (map (\<lambda>line. strip_by (\<lambda>c. c = CHR 0x22) (strip line)) (splitlines block)))
                 (finditer GO_BLOCK text))"

definition group1_imports :: "handler \<Rightarrow> string \<Rightarrow> string list" where
  "group1_imports h text =
     concat (map (\<lambda>rx. concat (map (\<lambda>r. case lastindex r of
                                           None \<Rightarrow> []
                                         | Some n \<Rightarrow>
                                             (case group1 r of
                                                None \<Rightarrow> []
                                              | Some g \<Rightarrow> if 1 \<le> n \<and> g \<noteq> [] then [g] else []))
                                    (finditer rx text)))
                 (import_regexes h))"

definition file_imps :: "lang \<Rightarrow> handler \<Rightarrow> string \<Rightarrow> string list" where
  "file_imps l h text =
     (if l = go then go_block_imports text @ group1_imports h text
      else extract_imports h text)"

text \<open>
  The two dictionaries of the graph. \<open>add_edge\<close> is the pair of \<open>add\<close> calls; a missing
  key would raise \<open>KeyError\<close>, which is the result \<open>None\<close>.
\<close>

type_synonym adjacency = "string \<rightharpoonup> string set"

definition add_edge :: "string \<Rightarrow> string \<Rightarrow> adjacency \<times> adjacency \<Rightarrow> (adjacency \<times> adjacency) option" where
  "add_edge f target g =
     (case g of (referenced_by, imports_of) \<Rightarrow>
        (case referenced_by target of
           None \<Rightarrow> None
         | Some R \<Rightarrow>
             (case imports_of f of
                None \<Rightarrow> None
              | Some I \<Rightarrow> Some (referenced_by(target \<mapsto> insert f R),
                                imports_of(f \<mapsto> insert target I)))))"

fun add_imports :: "string \<Rightarrow> handler \<Rightarrow> string \<Rightarrow> string set \<Rightarrow> string list
    \<Rightarrow> adjacency \<times> adjacency \<Rightarrow> (adjacency \<times> adjacency) option" where
  "add_imports pr h f all_files_set [] g = Some g"
| "add_imports pr h f all_files_set (imp # imps) g =
     (case resolve_import pr h f imp all_files_set of
        None \<Rightarrow> add_imports pr h f all_files_set imps g
      | Some target \<Rightarrow>
          if target = [] then add_imports pr h f all_files_set imps g
          else (case add_edge f target g of
                  None \<Rightarrow> None
                | Some g' \<Rightarrow> add_imports pr h f all_files_set imps g'))"

fun scan_files :: "(lang \<Rightarrow> handler) \<Rightarrow> string \<Rightarrow> node \<Rightarrow> string set \<Rightarrow> string list
    \<Rightarrow> adjacency \<times> adjacency \<Rightarrow> (adjacency \<times> adjacency) option" where
  "scan_files H pr t all_files_set [] g = Some g"
| "scan_files H pr t all_files_set (f # fs) g =
     (case detect_language_for_file f of
        None \<Rightarrow> scan_files H pr t all_files_set fs g
      | Some l \<Rightarrow>
          (case read_file t f of
             None \<Rightarrow> scan_files H pr t all_files_set fs g
           | Some text \<Rightarrow>
               (case add_imports pr (H l) f all_files_set (file_imps l (H l) text) g of
                  None \<Rightarrow> None
                | Some g' \<Rightarrow> scan_files H pr t all_files_set fs g')))"

definition empty_adjacency :: "string list \<Rightarrow> adjacency" where
  "empty_adjacency all_files = (\<lambda>f. if f \<in> set all_files then Some {} else None)"

record graph =
  all_files :: "string list"
  referenced_by :: adjacency
  imports_of :: adjacency

definition analyze_project :: "(lang \<Rightarrow> handler) \<Rightarrow> string \<Rightarrow> string \<Rightarrow> bool \<Rightarrow> world \<Rightarrow> (graph \<times> world) option" where
  "analyze_project H pr root use_cache w =
     (case build_file_list root use_cache w of (files, w') \<Rightarrow>
        (case scan_files H pr (tree w') (set files) files
                (empty_adjacency files, empty_adjacency files) of
           None \<Rightarrow> None
         | Some (rb, io) \<Rightarrow>
             Some (\<lparr>all_files = files, referenced_by = rb, imports_of = io\<rparr>, w')))"

section \<open>Dead files and broken imports\<close>

definition has_refs :: "adjacency \<Rightarrow> string \<Rightarrow> bool" where
  "has_refs rb f = (case rb f of None \<Rightarrow> False | Some refs \<Rightarrow> refs \<noteq> {})"

definition entry_names :: "string list" where
  "entry_names = [''app.py'', ''main.py'', ''index.js'', ''index.ts'', ''server.js'']"

text \<open>One pass of the loop of \<open>detect_dead_files\<close>: is \<open>f\<close> appended to \<open>dead\<close>?\<close>

definition is_dead :: "adjacency \<Rightarrow> string \<Rightarrow> bool" where
  "is_dead rb f =
     (if has_refs rb f then False
      else (let path_norm = lower (replace_char (CHR 0x5C) (CHR ''/'') f);
                bn = lower (basename f)
            in if contains ''/pages/'' path_norm \<or> contains ''/routes/'' path_norm then False
               else if prefix ''index.'' bn then False
               else if bn \<in> set entry_names then False
               else if detect_language_for_file f = Some java
                       \<and> (contains ''/src/main/'' path_norm \<or> contains ''/src/'' path_norm)
                    then False
               else True))"

definition detect_dead_files :: "string list \<Rightarrow> adjacency \<Rightarrow> string list" where
  "detect_dead_files files rb = sort (filter (is_dead rb) files)"

definition looks_local :: "lang \<Rightarrow> string \<Rightarrow> bool" where
  "looks_local l imp =
     (prefix ''.'' imp \<or> CHR ''/'' \<in> set imp \<or> (CHR ''.'' \<in> set imp \<and> (l = java \<or> l = csharp)))"

fun broken_of_file :: "string \<Rightarrow> handler \<Rightarrow> lang \<Rightarrow> string \<Rightarrow> string set \<Rightarrow> string list \<Rightarrow> (string \<times> string) list" where
  "broken_of_file pr h l src all_set [] = []"
| "broken_of_file pr h l src all_set (imp # imps) =
     (if imp \<noteq> [] \<and> resolve_import pr h src imp all_set = None
      then (if looks_local l imp then [(src, imp)] else [])
      else [])
     @ broken_of_file pr h l src all_set imps"

fun broken_loop :: "(lang \<Rightarrow> handler) \<Rightarrow> string \<Rightarrow> node \<Rightarrow> string set \<Rightarrow> string list \<Rightarrow> (string \<times> string) list" where
  "broken_loop H pr t all_set [] = []"
| "broken_loop H pr t all_set (src # rest) =
     (case detect_language_for_file src of
        None \<Rightarrow> broken_loop H pr t all_set rest
      | Some l \<Rightarrow>
          (case read_file t src of
             None \<Rightarrow> broken_loop H pr t all_set rest
           | Some text \<Rightarrow>
               broken_of_file pr (H l) l src all_set (extract_imports (H l) text)
               @ broken_loop H pr t all_set rest))"

definition detect_broken_imports :: "(lang \<Rightarrow> handler) \<Rightarrow> string \<Rightarrow> bool \<Rightarrow> world
    \<Rightarrow> ((string \<times> string) list \<times> world) option" where
  "detect_broken_imports H pr use_cache w =
     (case analyze_project H pr pr use_cache w of
        None \<Rightarrow> None
      | Some (g, w') \<Rightarrow>
          Some (broken_loop H pr (tree w') (set (all_files g)) (all_files g), w'))"

section \<open>Snapshots\<close>

text \<open>
  The clock is read by the caller: \<open>ts\<close> is the value of \<open>now_ts()\<close> and \<open>now\<close> the
  modification time that a file written at that moment gets. \<open>meta_text\<close> is the text of
  the metadata file (the label is written without JSON escapes).
\<close>

definition META_NAME :: string where
  "META_NAME = ''.snapshot_meta.json''"

definition meta_text :: "string \<Rightarrow> string \<Rightarrow> string" where
  "meta_text label ts =
     [CHR ''{'', CHR 0x22] @ ''label'' @ [CHR 0x22] @ '': '' @ [CHR 0x22] @ label @ [CHR 0x22]
     @ '', '' @ [CHR 0x22] @ ''timestamp'' @ [CHR 0x22] @ '': '' @ [CHR 0x22] @ ts @ [CHR 0x22, CHR ''}'']"

definition list_snapshots :: "node \<Rightarrow> string list" where
  "list_snapshots t =
     (case listdir t BACKUP_DIR of
        None \<Rightarrow> []
      | Some ds \<Rightarrow> filter (isdir t) (rev (sort (map (path_join BACKUP_DIR) ds))))"

text \<open>\<open>try_rmtree\<close> is \<open>shutil.rmtree\<close> under \<open>try ... except: pass\<close>.\<close>

definition try_rmtree :: "string \<Rightarrow> node \<Rightarrow> node" where
  "try_rmtree p t = (case rmtree t p of None \<Rightarrow> t | Some t' \<Rightarrow> t')"

definition trim_snapshots :: "node \<Rightarrow> node" where
  "trim_snapshots t =
     (let snaps = list_snapshots t
      in if length snaps \<le> ALLOW_UNDO_COUNT then t
         else fold try_rmtree (drop ALLOW_UNDO_COUNT snaps) t)"

definition snapshot_name :: "string \<Rightarrow> string \<Rightarrow> string" where
  "snapshot_name ts label = filter (\<lambda>c. c \<noteq> CHR '' '') (ts @ label)"

text \<open>The result is the path of the snapshot, or the empty string after an exception.\<close>

definition create_snapshot :: "string \<Rightarrow> string \<Rightarrow> int \<Rightarrow> string \<Rightarrow> node \<Rightarrow> string \<times> node" where
  "create_snapshot pr ts now label t =
     (let dest = path_join BACKUP_DIR (snapshot_name ts label)
      in case copytree t pr dest of
           None \<Rightarrow> ([], t)
         | Some t1 \<Rightarrow>
             (case write_file t1 (path_join dest META_NAME) (meta_text label ts) now of
                None \<Rightarrow> ([], t1)
              | Some t2 \<Rightarrow> (dest, trim_snapshots t2)))"

text \<open>The first loop of \<open>undo_last\<close>: every entry of the project root is removed, errors passed over.\<close>

definition clear_entry :: "string \<Rightarrow> string \<Rightarrow> node \<Rightarrow> node" where
  "clear_entry pr nm t =
     (let path = path_join pr nm
      in case (if isdir t path then rmtree t path else os_remove t path) of
           None \<Rightarrow> t
         | Some t' \<Rightarrow> t')"

text \<open>The second loop: an exception ends it with the tree as it is then.\<close>

fun restore_items :: "string \<Rightarrow> string \<Rightarrow> string list \<Rightarrow> node \<Rightarrow> bool \<times> node" where
  "restore_items pr last_snap [] t = (True, t)"
| "restore_items pr last_snap (item # items) t =
     (if item = META_NAME then restore_items pr last_snap items t
      else (let s = path_join last_snap item; d = path_join pr item
            in case (if isdir t s then copytree t s d else copy2 t s d) of
                 None \<Rightarrow> (False, t)
               | Some t' \<Rightarrow> restore_items pr last_snap items t'))"

definition undo_last :: "string \<Rightarrow> node \<Rightarrow> bool \<times> node" where
  "undo_last pr t =
     (case list_snapshots t of
        [] \<Rightarrow> (False, t)
      | last_snap # _ \<Rightarrow>
          (case listdir t pr of
             None \<Rightarrow> (False, t)
           | Some names \<Rightarrow>
               (let t1 = fold (clear_entry pr) names t
                in case listdir t1 last_snap of
                     None \<Rightarrow> (False, t1)
                   | Some items \<Rightarrow> restore_items pr last_snap items t1)))"

section \<open>Mutating operations\<close>

text \<open>
  Each operation takes the answer of the confirmation prompt (\<open>answer\<close>, asked only in
  safe mode without \<open>--yes\<close>) and the clock values of its snapshot, and returns the
  preview it shows together with the world it leaves. Log lines are not part of the world.
\<close>

definition confirmed :: "bool \<Rightarrow> bool \<Rightarrow> bool" where
  "confirmed assume_yes answer = (if SAFE_MODE \<and> \<not> assume_yes then answer else True)"

text \<open>\<open>m.group(1) if m.lastindex and m.lastindex >= 1 else None\<close>\<close>

definition group1_or_none :: "rmatch_result \<Rightarrow> string option" where
  "group1_or_none r = (case lastindex r of None \<Rightarrow> None | Some n \<Rightarrow> if 1 \<le> n then group1 r else None)"

definition points_to :: "string \<Rightarrow> rmatch_result \<Rightarrow> bool" where
  "points_to target_folder r =
     (case group1_or_none r of None \<Rightarrow> False
      | Some imp \<Rightarrow> imp \<noteq> [] \<and> contains target_folder imp)"

subsection \<open>\<open>remove_imports\<close>\<close>

definition text_has_import :: "handler \<Rightarrow> string \<Rightarrow> string \<Rightarrow> bool" where
  "text_has_import h target_folder text =
     list_ex (\<lambda>rx. list_ex (points_to target_folder) (finditer rx text)) (import_regexes h)"

fun remove_preview :: "(lang \<Rightarrow> handler) \<Rightarrow> node \<Rightarrow> string \<Rightarrow> string list \<Rightarrow> string list" where
  "remove_preview H t target_folder [] = []"
| "remove_preview H t target_folder (f # files) =
     (case detect_language_for_file f of
        None \<Rightarrow> remove_preview H t target_folder files
      | Some l \<Rightarrow>
          (case read_file t f of
             None \<Rightarrow> remove_preview H t target_folder files
           | Some text \<Rightarrow>
               (if text_has_import (H l) target_folder text then [f] else [])
               @ remove_preview H t target_folder files))"

definition line_dropped :: "handler \<Rightarrow> string \<Rightarrow> string \<Rightarrow> bool" where
  "line_dropped h target_folder line =
     list_ex (\<lambda>rx. case search rx line of None \<Rightarrow> False | Some r \<Rightarrow> points_to target_folder r)
       (import_regexes h)"

text \<open>
  The second loop of \<open>remove_imports\<close> for one file of the preview. A file of the
  preview has a language, so the case \<open>None\<close> of the language is never taken.
\<close>

definition remove_in_file :: "(lang \<Rightarrow> handler) \<Rightarrow> string \<Rightarrow> int \<Rightarrow> string \<Rightarrow> node \<Rightarrow> node" where
  "remove_in_file H target_folder now f t =
     (case read_file t f of
        None \<Rightarrow> t
      | Some text \<Rightarrow>
          (case detect_language_for_file f of
             None \<Rightarrow> t
           | Some l \<Rightarrow>
               (let lines = readlines text;
                    new_lines = filter (\<lambda>line. \<not> line_dropped (H l) target_folder line) lines;
                    removed = list_ex (line_dropped (H l) target_folder) lines
                in if removed
                   then (case write_file t f (concat new_lines) now of None \<Rightarrow> t | Some t' \<Rightarrow> t')
                   else t)))"

definition remove_imports :: "(lang \<Rightarrow> handler) \<Rightarrow> string \<Rightarrow> string \<Rightarrow> bool \<Rightarrow> bool \<Rightarrow> bool \<Rightarrow> string \<Rightarrow> int
    \<Rightarrow> world \<Rightarrow> string list \<times> world" where
  "remove_imports H pr target_folder dry_run assume_yes answer ts now w =
     (case build_file_list pr True w of (files, w1) \<Rightarrow>
        (let preview = remove_preview H (tree w1) target_folder files
         in if dry_run then (preview, w1)
            else if \<not> confirmed assume_yes answer then (preview, w1)
            else (case create_snapshot pr ts now (''remove_imports_'' @ target_folder) (tree w1) of
                    (dest, t2) \<Rightarrow>
                      (preview, w1\<lparr>tree := fold (remove_in_file H target_folder now) preview t2\<rparr>))))"

subsection \<open>\<open>comment_imports\<close>\<close>

text \<open>The specifier that the first loop of \<open>comment_imports\<close> reads off a match.\<close>

definition comment_imp :: "rmatch_result \<Rightarrow> string" where
  "comment_imp r =
     (case group1_or_none r of
        None \<Rightarrow> group0 r
      | Some imp \<Rightarrow> if imp = [] then group0 r else imp)"

definition line_previewed :: "handler \<Rightarrow> string \<Rightarrow> string \<Rightarrow> bool" where
  "line_previewed h target_folder line =
     list_ex (\<lambda>rx. case search rx line of
                     None \<Rightarrow> False
                   | Some r \<Rightarrow> contains target_folder (replace_char (CHR 0x5C) (CHR ''/'') (comment_imp r)))
       (import_regexes h)"

fun comment_preview :: "(lang \<Rightarrow> handler) \<Rightarrow> node \<Rightarrow> string \<Rightarrow> string list \<Rightarrow> string list" where
  "comment_preview H t target_folder [] = []"
| "comment_preview H t target_folder (f # files) =
     (case detect_language_for_file f of
        None \<Rightarrow> comment_preview H t target_folder files
      | Some l \<Rightarrow>
          (case read_file t f of
             None \<Rightarrow> comment_preview H t target_folder files
           | Some text \<Rightarrow>
               (if list_ex (line_previewed (H l) target_folder) (readlines text) then [f] else [])
               @ comment_preview H t target_folder files))"

text \<open>The test of the second loop: some pattern is found in the line and the folder occurs in the line.\<close>

definition line_commented :: "handler \<Rightarrow> string \<Rightarrow> string \<Rightarrow> bool" where
  "line_commented h target_folder line =
     list_ex (\<lambda>rx. search rx line \<noteq> None \<and> contains target_folder line) (import_regexes h)"

definition comment_line :: "lang \<Rightarrow> string \<Rightarrow> string" where
  "comment_line l line =
     (let body = rstrip_by (\<lambda>c. c = CHR 0x0A) line
      in if l = python then ''# '' @ body @ ''  # removido pelo script'' @ [CHR 0x0A]
         else ''// '' @ body @ '' // removido pelo script'' @ [CHR 0x0A])"

definition comment_in_file :: "(lang \<Rightarrow> handler) \<Rightarrow> string \<Rightarrow> int \<Rightarrow> string \<Rightarrow> node \<Rightarrow> node" where
  "comment_in_file H target_folder now f t =
     (case read_file t f of
        None \<Rightarrow> t
      | Some text \<Rightarrow>
          (case detect_language_for_file f of
             None \<Rightarrow> t
           | Some l \<Rightarrow>
               (let lines = readlines text;
                    new_lines = map (\<lambda>line. if line_commented (H l) target_folder line
                                             then comment_line l line else line) lines;
                    changed = list_ex (line_commented (H l) target_folder) lines
                in if changed
                   then (case write_file t f (concat new_lines) now of None \<Rightarrow> t | Some t' \<Rightarrow> t')
                   else t)))"

definition comment_imports :: "(lang \<Rightarrow> handler) \<Rightarrow> string \<Rightarrow> string \<Rightarrow> bool \<Rightarrow> bool \<Rightarrow> bool \<Rightarrow> string \<Rightarrow> int
    \<Rightarrow> world \<Rightarrow> string list \<times> world" where
  "comment_imports H pr target_folder dry_run assume_yes answer ts now w =
     (case build_file_list pr True w of (files, w1) \<Rightarrow>
        (let preview = comment_preview H (tree w1) target_folder files
         in if dry_run then (preview, w1)
            else if \<not> confirmed assume_yes answer then (preview, w1)
            else (case create_snapshot pr ts now (''comment_imports_'' @ target_folder) (tree w1) of
                    (dest, t2) \<Rightarrow>
                      (preview, w1\<lparr>tree := fold (comment_in_file H target_folder now) preview t2\<rparr>))))"

subsection \<open>\<open>remove_folder\<close>\<close>

text \<open>The loop over \<open>os.walk(path)\<close> that lists every file below the folder.\<close>

fun walk_all :: "string \<Rightarrow> node \<Rightarrow> string list" where
  "walk_all r (File c m) = []"
| "walk_all r (Dir es) =
     concat (map (\<lambda>(nm, n). case n of File _ _ \<Rightarrow> [path_join r nm] | Dir _ \<Rightarrow> []) es)
     @ concat (map (\<lambda>(nm, n). case n of File _ _ \<Rightarrow> [] | Dir _ \<Rightarrow> walk_all (path_join r nm) n) es)"

definition remove_folder :: "string \<Rightarrow> string \<Rightarrow> bool \<Rightarrow> bool \<Rightarrow> bool \<Rightarrow> string \<Rightarrow> int \<Rightarrow> node
    \<Rightarrow> string list \<times> node" where
  "remove_folder pr target_folder dry_run assume_yes answer ts now t =
     (let path = path_join pr target_folder
      in case node_at t path of
           Some (Dir es) \<Rightarrow>
             (let files_to_delete = walk_all path (Dir es)
              in if dry_run then (files_to_delete, t)
                 else if \<not> confirmed assume_yes answer then (files_to_delete, t)
                 else (case create_snapshot pr ts now (''remove_folder_'' @ target_folder) t of
                         (dest, t2) \<Rightarrow> (files_to_delete, try_rmtree path t2)))
         | _ \<Rightarrow> ([], t))"

subsection \<open>\<open>detect_and_handle_dead\<close>\<close>

definition try_remove :: "string \<Rightarrow> node \<Rightarrow> node" where
  "try_remove f t = (case os_remove t f of None \<Rightarrow> t | Some t' \<Rightarrow> t')"

text \<open>\<open>answers f\<close> is the answer to the prompt for the file \<open>f\<close>.\<close>

definition detect_and_handle_dead :: "(lang \<Rightarrow> handler) \<Rightarrow> string \<Rightarrow> bool \<Rightarrow> bool \<Rightarrow> (string \<Rightarrow> bool) \<Rightarrow> bool
    \<Rightarrow> string \<Rightarrow> int \<Rightarrow> world \<Rightarrow> (string list \<times> world) option" where
  "detect_and_handle_dead H pr dry_run assume_yes answers use_cache ts now w =
     (case analyze_project H pr pr use_cache w of
        None \<Rightarrow> None
      | Some (g, w1) \<Rightarrow>
          (let dead = detect_dead_files (all_files g) (referenced_by g)
           in if dead = [] then Some (dead, w1)
              else if dry_run then Some (dead, w1)
              else (let to_delete = filter (\<lambda>f. confirmed assume_yes (answers f)) dead
                    in if to_delete = [] then Some (dead, w1)
                       else (case create_snapshot pr ts now ''delete_dead_files'' (tree w1) of
                               (dest, t2) \<Rightarrow> Some (dead, w1\<lparr>tree := fold try_remove to_delete t2\<rparr>)))))"

subsection \<open>\<open>move_and_fix\<close>\<close>

text \<open>
  The first loop of \<open>move_and_fix\<close>: the files with an import that resolves to the
  source of the move or to a file below it.
\<close>

definition imports_moved :: "string \<Rightarrow> handler \<Rightarrow> string set \<Rightarrow> string \<Rightarrow> string \<Rightarrow> string \<Rightarrow> bool" where
  "imports_moved pr h all_set abs_src f txt =
     list_ex (\<lambda>imp. case resolve_import pr h f imp all_set of
                       None \<Rightarrow> False
                     | Some target \<Rightarrow> target \<noteq> [] \<and> (target = abs_src \<or> prefix (abs_src @ ''/'') target))
       (extract_imports h txt)"

fun affected_files :: "(lang \<Rightarrow> handler) \<Rightarrow> string \<Rightarrow> node \<Rightarrow> string set \<Rightarrow> string
    \<Rightarrow> string list \<Rightarrow> string list" where
  "affected_files H pr t all_set abs_src [] = []"
| "affected_files H pr t all_set abs_src (f # files) =
     (case detect_language_for_file f of
        None \<Rightarrow> affected_files H pr t all_set abs_src files
      | Some l \<Rightarrow>
          (case read_file t f of
             None \<Rightarrow> affected_files H pr t all_set abs_src files
           | Some txt \<Rightarrow>
               (if imports_moved pr (H l) all_set abs_src f txt then [f] else [])
               @ affected_files H pr t all_set abs_src files))"

text \<open>The last loop, for one file: read, replace, write; an exception leaves the file.\<close>

definition fix_in_file :: "string \<Rightarrow> string \<Rightarrow> int \<Rightarrow> string \<Rightarrow> node \<Rightarrow> node" where
  "fix_in_file old_rel new_rel now f t =
     (case read_file t f of
        None \<Rightarrow> t
      | Some txt \<Rightarrow>
          (case write_file t f (str_replace old_rel new_rel txt) now of
             None \<Rightarrow> t
           | Some t' \<Rightarrow> t'))"

text \<open>
  \<open>affected\<close> is a set in the source. The preview shows it sorted; the last loop runs
  over it in an order that the source does not fix, here the sorted one (every step
  rewrites the file it names, by the same replacement).
\<close>

definition move_and_fix :: "(lang \<Rightarrow> handler) \<Rightarrow> string \<Rightarrow> string \<Rightarrow> string \<Rightarrow> bool \<Rightarrow> bool \<Rightarrow> bool
    \<Rightarrow> string \<Rightarrow> int \<Rightarrow> world \<Rightarrow> string list \<times> world" where
  "move_and_fix H pr src_rel dest_rel dry_run assume_yes answer ts now w =
     (let abs_src = normpath (path_join pr src_rel);
          abs_dest = normpath (path_join pr dest_rel)
      in if \<not> path_exists (tree w) abs_src then ([], w)
         else (case build_file_list pr True w of (files, w1) \<Rightarrow>
           (let affected =
                  sort (remdups (affected_files H pr (tree w1) (set files) abs_src files))
            in if dry_run then (affected, w1)
               else if \<not> confirmed assume_yes answer then (affected, w1)
               else (case create_snapshot pr ts now (''move_'' @ basename src_rel) (tree w1) of
                       (dest, t2) \<Rightarrow>
                         (case shutil_move (cwd w1) t2 abs_src abs_dest of
                            (False, t3) \<Rightarrow> (affected, w1\<lparr>tree := t3\<rparr>)
                          | (True, t3) \<Rightarrow>
                              (let old_rel = replace_char (CHR 0x5C) (CHR ''/'')
                                               (relpath (cwd w1) abs_src pr);
                                   new_rel = replace_char (CHR 0x5C) (CHR ''/'')
                                               (relpath (cwd w1) abs_dest pr)
                               in (affected,
                                   w1\<lparr>tree := fold (fix_in_file old_rel new_rel now) affected t3\<rparr>)))))))"

section \<open>Graph invariant and example states\<close>

text \<open>
  The invariant of the two dictionaries over the node set \<open>S\<close>: both have exactly the
  nodes as keys, every value holds nodes only, and each is the transpose of the other.
\<close>

definition graph_inv :: "string set \<Rightarrow> adjacency \<times> adjacency \<Rightarrow> bool" where
  "graph_inv S g = (case g of (rb, io) \<Rightarrow>
     dom rb = S \<and> dom io = S
     \<and> (\<forall>f I. io f = Some I \<longrightarrow> I \<subseteq> S)
     \<and> (\<forall>t R. rb t = Some R \<longrightarrow> R \<subseteq> S)
     \<and> (\<forall>f t I R. io f = Some I \<longrightarrow> rb t = Some R \<longrightarrow> (t \<in> I \<longleftrightarrow> f \<in> R)))"

definition graph_example :: world where
  "graph_example =
     \<lparr>tree = Dir [(''src'', Dir [(''a.js'', File ''import X from './b'\<newline>'' 5),
                               (''b.js'', File '''' 6)])],
      cache = None, cwd = ''/p''\<rparr>"

definition scan_example :: world where
  "scan_example =
     \<lparr>tree = Dir [(''src'', Dir [(''foo.d.ts'', File [] 0), (''a.spec.js'', File [] 0),
                               (''.d.ts'', File [] 0), (''.spec.'', File [] 0),
                               (''.test.js'', File [] 0), (''a.test.js'', File [] 0)])],
      cache = None, cwd = ''/p''\<rparr>"

definition broken_example :: world where
  "broken_example =
     \<lparr>tree = Dir [(''src'', Dir [(''a.js'', File ''import X from './b'\<newline>import y from '../zz'\<newline>import z from 'react'\<newline>'' 5),
                               (''b.js'', File '''' 6),
                               (''c.cs'', File ''using Missing.Thing;\<newline>'' 7)])],
      cache = None, cwd = ''/p''\<rparr>"

definition legacy_example :: world where
  "legacy_example =
     \<lparr>tree = Dir [(''src'', Dir [(''a.js'',
               File ''import a from './legacy/a'\<newline>import legacy from './other'\<newline>let x = 1\<newline>'' 5)]),
                  (''backup_snapshots'', Dir [])],
      cache = None, cwd = ''/p''\<rparr>"

definition taken_example :: node where
  "taken_example =
     Dir [(''src'', Dir [(''legacy'', Dir [(''old.js'', File ''x'' 1)]), (''a.js'', File ''y'' 2)]),
          (''backup_snapshots'', Dir [(''20240101_120000remove_folder_legacy'', Dir [])])]"

definition stale_example :: world where
  "stale_example =
     \<lparr>tree = Dir [(''src'', Dir [(''a.js'', File ''x'' 1), (''b.js'', File ''y'' 2)])],
      cache = Some (Cache ''/p/src'' [(''src/a.js'', 1)]), cwd = ''/p''\<rparr>"

text \<open>
  \<open>multiline_example\<close>: one file whose only import of the folder \<open>legacy\<close> spans three
  lines. \<open>failing_example\<close>: the backup directory already holds an entry for each of
  the five snapshot names of the second \<open>20240101_120000\<close>, so each of these snapshots
  fails.
\<close>

definition multiline_example :: world where
  "multiline_example =
     \<lparr>tree = Dir [(''src'', Dir [(''a.js'',
               File ''import {\<newline>  a\<newline>} from './legacy/a'\<newline>let x = 1\<newline>'' 5)]),
                  (''backup_snapshots'', Dir [])],
      cache = None, cwd = ''/p''\<rparr>"

definition failing_example :: world where
  "failing_example =
     \<lparr>tree = Dir [(''src'', Dir [(''legacy'', Dir [(''old.js'', File ''let y = 2\<newline>'' 1)]),
                               (''a.js'', File ''import y from './legacy/old'\<newline>let x = 1\<newline>'' 2)]),
                  (''backup_snapshots'',
                     Dir [(''20240101_120000remove_folder_legacy'', Dir []),
                          (''20240101_120000delete_dead_files'', Dir []),
                          (''20240101_120000remove_imports_legacy'', Dir []),
                          (''20240101_120000comment_imports_legacy'', Dir []),
                          (''20240101_120000move_old.js'', Dir [])])],
      cache = None, cwd = ''/p''\<rparr>"

section \<open>What a path shows\<close>

text \<open>
  \<open>view t cs\<close> is what the tree shows at the components \<open>cs\<close>: nothing, a directory
  (\<open>Some None\<close>), or a file with its text and its modification time.
\<close>

definition shape :: "node \<Rightarrow> (string \<times> int) option" where
  "shape n = (case n of File x m \<Rightarrow> Some (x, m) | Dir _ \<Rightarrow> None)"

definition view :: "node \<Rightarrow> string list \<Rightarrow> (string \<times> int) option option" where
  "view t cs = map_option shape (lookup t cs)"

section \<open>Sequences of snapshots\<close>

text \<open>
  A name that a directory entry can have. \<open>run_creates\<close> is a sequence of
  \<open>create_snapshot\<close> calls, each with its clock values and its label.
\<close>

definition valid_name :: "string \<Rightarrow> bool" where
  "valid_name x = (x \<noteq> [] \<and> CHR ''/'' \<notin> set x \<and> x \<noteq> ''.'' \<and> x \<noteq> ''..'')"


text \<open>\<open>set_top a e t\<close> replaces the entry \<open>a\<close> of the working directory by \<open>e\<close>.\<close>

definition set_top :: "string \<Rightarrow> node \<Rightarrow> node \<Rightarrow> node" where
  "set_top a e t = (case t of Dir es \<Rightarrow> Dir (AList.update a e es) | File c m \<Rightarrow> File c m)"

definition slash_example :: node where
  "slash_example =
     Dir [(''src'', Dir [(''a.js'', File ''x'' 1)]), (''backup_snapshots'', Dir [])]"

definition same_second_example :: node where
  "same_second_example =
     Dir [(''src'', Dir [(''a.js'', File ''new'' 2)]),
          (''backup_snapshots'',
             Dir [(''20240101_120000z'',
                   Dir [(''a.js'', File ''old'' 1), (''.snapshot_meta.json'', File ''{}'' 1)])])]"







section \<open>The skip patterns\<close>

lemma fnmatch_star: "fnmatch s ''*''"
  by (induction s) simp_all

lemma fnmatch_nil: "fnmatch s [] \<longleftrightarrow> s = []"
  by (cases s) simp_all

lemma fnmatch_literal:
  "CHR ''*'' \<notin> set p \<Longrightarrow> CHR ''?'' \<notin> set p \<Longrightarrow> fnmatch nm p \<longleftrightarrow> nm = p"
proof (induction p arbitrary: nm)
  case Nil
  show ?case by (simp add: fnmatch_nil)
next
  case (Cons c p)
  then have IH: "\<And>n. fnmatch n p \<longleftrightarrow> n = p" and c: "c \<noteq> CHR ''*''" "c \<noteq> CHR ''?''"
    by auto
  show ?case
  proof (cases nm)
    case Nil
    with c show ?thesis by simp
  next
    case (Cons d nm')
    with c IH show ?thesis by auto
  qed
qed

lemma fnmatch_literal_star:
  "CHR ''*'' \<notin> set p \<Longrightarrow> CHR ''?'' \<notin> set p \<Longrightarrow> fnmatch nm (p @ ''*'') \<longleftrightarrow> prefix p nm"
proof (induction p arbitrary: nm)
  case Nil
  show ?case using fnmatch_star by simp
next
  case (Cons c p)
  then have IH: "\<And>n. fnmatch n (p @ ''*'') \<longleftrightarrow> prefix p n"
    and c: "c \<noteq> CHR ''*''" "c \<noteq> CHR ''?''"
    by auto
  show ?case
  proof (cases nm)
    case Nil
    with c show ?thesis by simp
  next
    case (Cons d nm')
    with c IH show ?thesis by auto
  qed
qed

lemma is_skipped_iff:
  "is_skipped nm \<longleftrightarrow> nm = ''.d.ts'' \<or> nm = ''.spec.'' \<or> prefix ''.test.'' nm"
proof -
  have 1: "fnmatch nm ''.d.ts'' \<longleftrightarrow> nm = ''.d.ts''" by (rule fnmatch_literal) simp_all
  have 2: "fnmatch nm ''.spec.'' \<longleftrightarrow> nm = ''.spec.''" by (rule fnmatch_literal) simp_all
  have 3: "fnmatch nm (''.test.'' @ ''*'') \<longleftrightarrow> prefix ''.test.'' nm"
    by (rule fnmatch_literal_star) simp_all
  have 4: "''.test.*'' = ''.test.'' @ ''*''" by simp
  have "is_skipped nm \<longleftrightarrow> fnmatch nm ''.d.ts'' \<or> fnmatch nm ''.spec.'' \<or> fnmatch nm ''.test.*''"
    unfolding is_skipped_def SKIP_PATTERNS_def list_ex_Cons_iff list_ex_Nil_iff by blast
  then show ?thesis unfolding 4 1 2 3 .
qed

lemma scan_example_files:
  "fst (build_file_list ''src'' False scan_example)
     = [''src/foo.d.ts'', ''src/a.spec.js'', ''src/a.test.js'']"
  by code_simp

lemma kept_examples: "is_kept ''foo.d.ts'' \<and> is_kept ''a.spec.js''"
  by code_simp

text \<open>
  C10. The patterns \<open>.d.ts\<close> and \<open>.spec.\<close> hold no wildcard, so a name is skipped only
  when it is exactly \<open>.d.ts\<close> or \<open>.spec.\<close> or starts with \<open>.test.\<close>; the files
  \<open>foo.d.ts\<close> and \<open>a.spec.js\<close> are not skipped, and a scan of a directory that holds
  them (beside files named \<open>.d.ts\<close>, \<open>.spec.\<close> and \<open>.test.js\<close>, which are skipped)
  lists them.
\<close>

theorem skip_patterns_literal:
  "(is_skipped nm \<longleftrightarrow> nm = ''.d.ts'' \<or> nm = ''.spec.'' \<or> prefix ''.test.'' nm)
   \<and> \<not> is_skipped ''foo.d.ts'' \<and> \<not> is_skipped ''a.spec.js''
   \<and> is_kept ''foo.d.ts'' \<and> is_kept ''a.spec.js''
   \<and> fst (build_file_list ''src'' False scan_example)
       = [''src/foo.d.ts'', ''src/a.spec.js'', ''src/a.test.js'']"
proof -
  have "\<not> is_skipped ''foo.d.ts''" "\<not> is_skipped ''a.spec.js''"
    by (simp_all add: is_skipped_iff)
  then show ?thesis
    using is_skipped_iff kept_examples scan_example_files by blast
qed

section \<open>Consistency of the graph\<close>

lemma probe_in: "probe c exts S = Some t \<Longrightarrow> t \<in> S"
  by (induction exts) (auto simp: Let_def split: if_splits)

lemma probe_ns_in: "probe_ns c exts S = Some t \<Longrightarrow> t \<in> S"
  by (induction exts) (auto simp: Let_def split: if_splits)

lemma resolve_import_in: "resolve_import pr h f imp S = Some t \<Longrightarrow> t \<in> S"
  unfolding resolve_import_def Let_def
  by (auto split: if_splits option.splits dest: probe_in probe_ns_in)

lemma graph_inv_empty: "graph_inv (set fs) (empty_adjacency fs, empty_adjacency fs)"
  by (auto simp: graph_inv_def empty_adjacency_def dom_def split: if_splits)

lemma add_edge_inv:
  assumes "graph_inv S g" "f \<in> S" "t \<in> S"
  shows "\<exists>g'. add_edge f t g = Some g' \<and> graph_inv S g'"
proof -
  obtain rb io where g: "g = (rb, io)" by (cases g)
  from assms(1) g have d: "dom rb = S" "dom io = S"
    and sub_io: "\<And>x I. io x = Some I \<Longrightarrow> I \<subseteq> S"
    and sub_rb: "\<And>x R. rb x = Some R \<Longrightarrow> R \<subseteq> S"
    and tr: "\<And>x y I R. io x = Some I \<Longrightarrow> rb y = Some R \<Longrightarrow> (y \<in> I \<longleftrightarrow> x \<in> R)"
    unfolding graph_inv_def by auto
  from d assms(2,3) obtain R I where R: "rb t = Some R" and I: "io f = Some I" by blast
  let ?rb = "rb(t \<mapsto> insert f R)" and ?io = "io(f \<mapsto> insert t I)"
  have e: "add_edge f t g = Some (?rb, ?io)"
    by (simp add: add_edge_def g R I)
  have 1: "dom ?rb = S" using d(1) assms(3) by auto
  have 2: "dom ?io = S" using d(2) assms(2) by auto
  have 3: "I' \<subseteq> S" if "?io x = Some I'" for x I'
  proof (cases "x = f")
    case True
    with that have "I' = insert t I" by simp
    with sub_io[OF I] assms(3) show ?thesis by simp
  next
    case False
    with that sub_io show ?thesis by simp
  qed
  have 4: "R' \<subseteq> S" if "?rb y = Some R'" for y R'
  proof (cases "y = t")
    case True
    with that have "R' = insert f R" by simp
    with sub_rb[OF R] assms(2) show ?thesis by simp
  next
    case False
    with that sub_rb show ?thesis by simp
  qed
  have 5: "(y \<in> I') = (x \<in> R')" if a: "?io x = Some I'" and b: "?rb y = Some R'" for x y I' R'
  proof -
    have I': "x = f \<Longrightarrow> I' = insert t I" "x \<noteq> f \<Longrightarrow> io x = Some I'"
      using a by (simp_all split: if_splits)
    have R': "y = t \<Longrightarrow> R' = insert f R" "y \<noteq> t \<Longrightarrow> rb y = Some R'"
      using b by (simp_all split: if_splits)
    show ?thesis
    proof (cases "x = f")
      case xf: True
      show ?thesis
      proof (cases "y = t")
        case True
        with xf I'(1) R'(1) show ?thesis by simp
      next
        case False
        with xf I'(1) R'(2) tr[OF I, of y R'] show ?thesis by auto
      qed
    next
      case xf: False
      show ?thesis
      proof (cases "y = t")
        case True
        with xf I'(2) R'(1) tr[OF _ R, of x I'] show ?thesis by auto
      next
        case False
        with xf I'(2) R'(2) tr[of x I' y R'] show ?thesis by simp
      qed
    qed
  qed
  have "graph_inv S (?rb, ?io)"
    unfolding graph_inv_def prod.case
  proof (intro conjI allI impI)
    show "dom ?rb = S" by (rule 1)
  next
    show "dom ?io = S" by (rule 2)
  next
    fix x I' assume "?io x = Some I'"
    then show "I' \<subseteq> S" by (rule 3)
  next
    fix y R' assume "?rb y = Some R'"
    then show "R' \<subseteq> S" by (rule 4)
  next
    fix x y I' R' assume "?io x = Some I'" "?rb y = Some R'"
    then show "(y \<in> I') = (x \<in> R')" by (rule 5)
  qed
  with e show ?thesis by blast
qed

lemma add_imports_inv:
  "graph_inv S g \<Longrightarrow> f \<in> S \<Longrightarrow> \<exists>g'. add_imports pr h f S imps g = Some g' \<and> graph_inv S g'"
proof (induction imps arbitrary: g)
  case Nil
  then show ?case by simp
next
  case (Cons imp imps)
  show ?case
  proof (cases "resolve_import pr h f imp S")
    case None
    with Cons show ?thesis by simp
  next
    case (Some t)
    then have "t \<in> S" by (rule resolve_import_in)
    with Cons.prems obtain g' where "add_edge f t g = Some g'" "graph_inv S g'"
      using add_edge_inv by blast
    with Cons Some show ?thesis by simp
  qed
qed

lemma scan_files_inv:
  "graph_inv S g \<Longrightarrow> set fs \<subseteq> S \<Longrightarrow> \<exists>g'. scan_files H pr t S fs g = Some g' \<and> graph_inv S g'"
proof (induction fs arbitrary: g)
  case Nil
  then show ?case by simp
next
  case (Cons f fs)
  then have f: "f \<in> S" and fs: "set fs \<subseteq> S" by auto
  show ?case
  proof (cases "detect_language_for_file f")
    case None
    with Cons fs show ?thesis by simp
  next
    case L: (Some l)
    show ?thesis
    proof (cases "read_file t f")
      case None
      with L Cons fs show ?thesis by simp
    next
      case T: (Some body)
      from add_imports_inv[OF Cons.prems(1) f] obtain g1
        where "add_imports pr (H l) f S (file_imps l (H l) body) g = Some g1" "graph_inv S g1"
        by blast
      with Cons.IH[OF _ fs] L T show ?thesis by simp
    qed
  qed
qed

lemma analyze_project_inv:
  "\<exists>g. analyze_project H pr root use_cache w = Some (g, snd (build_file_list root use_cache w))
     \<and> all_files g = fst (build_file_list root use_cache w)
     \<and> graph_inv (set (all_files g)) (referenced_by g, imports_of g)"
proof -
  obtain files w' where b: "build_file_list root use_cache w = (files, w')"
    by (cases "build_file_list root use_cache w")
  from scan_files_inv[OF graph_inv_empty[of files], of files H pr "tree w'"]
  obtain rb io where s: "scan_files H pr (tree w') (set files) files
         (empty_adjacency files, empty_adjacency files) = Some (rb, io)"
     and i: "graph_inv (set files) (rb, io)" by auto
  have "analyze_project H pr root use_cache w
          = Some (\<lparr>all_files = files, referenced_by = rb, imports_of = io\<rparr>, w')"
    by (simp add: analyze_project_def b s)
  with i b show ?thesis by simp
qed

lemma graph_example_eval:
  "(case analyze_project (LANG_HANDLERS []) ''src'' ''src'' True graph_example of
      None \<Rightarrow> False
    | Some (g, w') \<Rightarrow> all_files g = [''src/a.js'', ''src/b.js'']
           \<and> imports_of g ''src/a.js'' = Some {''src/b.js''}
           \<and> referenced_by g ''src/b.js'' = Some {''src/a.js''})"
  by code_simp

text \<open>
  C1. \<open>analyze_project\<close> returns a graph for every handler table, value of
  \<open>PROJECT_ROOT\<close>, root, cache flag and world (it raises no \<open>KeyError\<close>). In that graph the keys of \<open>imports_of\<close> and of
  \<open>referenced_by\<close> are exactly the files of the list, every file in a value set of either
  dictionary is a file of the list, and \<open>t\<close> is in \<open>imports_of[f]\<close> exactly when \<open>f\<close> is
  in \<open>referenced_by[t]\<close>.
\<close>

theorem analyze_project_graph_consistent:
  "\<exists>g w'. analyze_project H pr root use_cache w = Some (g, w')
     \<and> dom (imports_of g) = set (all_files g)
     \<and> dom (referenced_by g) = set (all_files g)
     \<and> (\<forall>f I. imports_of g f = Some I \<longrightarrow> I \<subseteq> set (all_files g))
     \<and> (\<forall>t R. referenced_by g t = Some R \<longrightarrow> R \<subseteq> set (all_files g))
     \<and> (\<forall>f t I R. imports_of g f = Some I \<longrightarrow> referenced_by g t = Some R
            \<longrightarrow> (t \<in> I \<longleftrightarrow> f \<in> R))"
proof -
  from analyze_project_inv[of H pr root use_cache w]
  obtain g where a: "analyze_project H pr root use_cache w = Some (g, snd (build_file_list root use_cache w))"
    and i: "graph_inv (set (all_files g)) (referenced_by g, imports_of g)" by blast
  from i have c: "dom (referenced_by g) = set (all_files g) \<and> dom (imports_of g) = set (all_files g)
     \<and> (\<forall>f I. imports_of g f = Some I \<longrightarrow> I \<subseteq> set (all_files g))
     \<and> (\<forall>t R. referenced_by g t = Some R \<longrightarrow> R \<subseteq> set (all_files g))
     \<and> (\<forall>f t I R. imports_of g f = Some I \<longrightarrow> referenced_by g t = Some R
            \<longrightarrow> (t \<in> I \<longleftrightarrow> f \<in> R))"
    unfolding graph_inv_def prod.case .
  show ?thesis
    apply (rule exI[of _ g])
    apply (rule exI[of _ "snd (build_file_list root use_cache w)"])
    apply (intro conjI)
         apply (rule a)
        apply (rule c[THEN conjunct2, THEN conjunct1])
       apply (rule c[THEN conjunct1])
      apply (rule c[THEN conjunct2, THEN conjunct2, THEN conjunct1])
     apply (rule c[THEN conjunct2, THEN conjunct2, THEN conjunct2, THEN conjunct1])
    apply (rule c[THEN conjunct2, THEN conjunct2, THEN conjunct2, THEN conjunct2])
    done
qed

theorem analyze_project_graph_consistent_witness:
  "\<exists>g w'. analyze_project (LANG_HANDLERS []) ''src'' ''src'' True graph_example = Some (g, w')
     \<and> imports_of g ''src/a.js'' = Some {''src/b.js''}
     \<and> referenced_by g ''src/b.js'' = Some {''src/a.js''}
     \<and> {''src/b.js''} \<subseteq> set (all_files g)"
proof -
  from analyze_project_graph_consistent[of "LANG_HANDLERS []" "''src''" "''src''" True graph_example]
  obtain g w' where c: "analyze_project (LANG_HANDLERS []) ''src'' ''src'' True graph_example = Some (g, w')
     \<and> dom (imports_of g) = set (all_files g)
     \<and> dom (referenced_by g) = set (all_files g)
     \<and> (\<forall>f I. imports_of g f = Some I \<longrightarrow> I \<subseteq> set (all_files g))
     \<and> (\<forall>t R. referenced_by g t = Some R \<longrightarrow> R \<subseteq> set (all_files g))
     \<and> (\<forall>f t I R. imports_of g f = Some I \<longrightarrow> referenced_by g t = Some R
            \<longrightarrow> (t \<in> I \<longleftrightarrow> f \<in> R))"
    by (elim exE) (rule that)
  note a = c[THEN conjunct1]
  note s = c[THEN conjunct2, THEN conjunct2, THEN conjunct2, THEN conjunct1]
  from graph_example_eval a
  have i: "imports_of g ''src/a.js'' = Some {''src/b.js''}"
          "referenced_by g ''src/b.js'' = Some {''src/a.js''}"
    by simp_all
  note sub = s[rule_format, OF i(1)]
  show ?thesis
    apply (rule exI[of _ g])
    apply (rule exI[of _ w'])
    apply (intro conjI)
       apply (rule a)
      apply (rule i(1))
     apply (rule i(2))
    apply (rule sub)
    done
qed

section \<open>Broken imports\<close>

lemma broken_of_file_set:
  "(s, i) \<in> set (broken_of_file pr h l src S imps) \<longleftrightarrow>
     s = src \<and> i \<in> set imps \<and> resolve_import pr h src i S = None \<and> (i \<noteq> [] \<and> looks_local l i)"
  by (induction imps) auto

lemma broken_loop_set:
  "(s, i) \<in> set (broken_loop H pr t S fs) \<longleftrightarrow>
     s \<in> set fs \<and> (\<exists>l body. detect_language_for_file s = Some l \<and> read_file t s = Some body
        \<and> i \<in> set (extract_imports (H l) body)
        \<and> resolve_import pr (H l) s i S = None \<and> (i \<noteq> [] \<and> looks_local l i))"
  by (induction fs) (auto simp: broken_of_file_set split: option.splits)

lemma looks_local_iff:
  "(i \<noteq> [] \<and> looks_local l i) \<longleftrightarrow>
     (prefix ''.'' i \<or> CHR ''/'' \<in> set i \<or> (CHR ''.'' \<in> set i \<and> (l = java \<or> l = csharp)))"
  by (auto simp: looks_local_def)

lemma broken_loop_shape:
  "(s, i) \<in> set (broken_loop H pr t S fs) \<longleftrightarrow>
     s \<in> set fs \<and> (\<exists>l body. detect_language_for_file s = Some l \<and> read_file t s = Some body
        \<and> i \<in> set (extract_imports (H l) body)
        \<and> resolve_import pr (H l) s i S = None
        \<and> (prefix ''.'' i \<or> CHR ''/'' \<in> set i \<or> (CHR ''.'' \<in> set i \<and> (l = java \<or> l = csharp))))"
  by (simp only: broken_loop_set looks_local_iff)

lemma broken_example_eval:
  "map_option fst (detect_broken_imports (LANG_HANDLERS []) ''src'' True broken_example)
     = Some [(''src/a.js'', ''../zz''), (''src/c.cs'', ''Missing.Thing'')]"
  by code_simp

text \<open>
  C9. \<open>detect_broken_imports\<close> returns (it does not raise), and a pair \<open>(src, imp)\<close> is in
  its list exactly when \<open>src\<close> is a scanned file with a language whose text can be read,
  \<open>imp\<close> is one of the specifiers extracted from that text, \<open>imp\<close> resolves to none
  against the set of all scanned files, and \<open>imp\<close> starts with a dot, or holds a slash,
  or holds a dot in a file of Java or C#. So a specifier of any other shape is never in the
  list.
\<close>

theorem detect_broken_imports_exact:
  "\<exists>g w' broken. analyze_project H pr pr use_cache w = Some (g, w')
     \<and> detect_broken_imports H pr use_cache w = Some (broken, w')
     \<and> (\<forall>src imp. (src, imp) \<in> set broken \<longleftrightarrow>
          src \<in> set (all_files g)
          \<and> (\<exists>l body. detect_language_for_file src = Some l \<and> read_file (tree w') src = Some body
               \<and> imp \<in> set (extract_imports (H l) body)
               \<and> resolve_import pr (H l) src imp (set (all_files g)) = None
               \<and> (prefix ''.'' imp \<or> CHR ''/'' \<in> set imp
                   \<or> (CHR ''.'' \<in> set imp \<and> (l = java \<or> l = csharp)))))"
proof -
  from analyze_project_inv[of H pr pr use_cache w]
  obtain g where a: "analyze_project H pr pr use_cache w
                       = Some (g, snd (build_file_list pr use_cache w))"
    by blast
  let ?w = "snd (build_file_list pr use_cache w)"
  let ?b = "broken_loop H pr (tree ?w) (set (all_files g)) (all_files g)"
  have d: "detect_broken_imports H pr use_cache w = Some (?b, ?w)"
    by (simp add: detect_broken_imports_def a)
  have e: "\<forall>src imp. (src, imp) \<in> set ?b \<longleftrightarrow>
          src \<in> set (all_files g)
          \<and> (\<exists>l body. detect_language_for_file src = Some l \<and> read_file (tree ?w) src = Some body
               \<and> imp \<in> set (extract_imports (H l) body)
               \<and> resolve_import pr (H l) src imp (set (all_files g)) = None
               \<and> (prefix ''.'' imp \<or> CHR ''/'' \<in> set imp
                   \<or> (CHR ''.'' \<in> set imp \<and> (l = java \<or> l = csharp))))"
    by (intro allI) (rule broken_loop_shape)
  show ?thesis
    apply (rule exI[of _ g])
    apply (rule exI[of _ ?w])
    apply (rule exI[of _ ?b])
    apply (intro conjI)
      apply (rule a)
     apply (rule d)
    apply (rule e)
    done
qed

theorem detect_broken_imports_exact_witness:
  "\<exists>broken w'. detect_broken_imports (LANG_HANDLERS []) ''src'' True broken_example = Some (broken, w')
     \<and> broken = [(''src/a.js'', ''../zz''), (''src/c.cs'', ''Missing.Thing'')]"
proof -
  from detect_broken_imports_exact[of "LANG_HANDLERS []" "''src''" True broken_example]
  obtain g w' broken
    where c: "analyze_project (LANG_HANDLERS []) ''src'' ''src'' True broken_example = Some (g, w')
     \<and> detect_broken_imports (LANG_HANDLERS []) ''src'' True broken_example = Some (broken, w')
     \<and> (\<forall>src imp. (src, imp) \<in> set broken \<longleftrightarrow>
          src \<in> set (all_files g)
          \<and> (\<exists>l body. detect_language_for_file src = Some l \<and> read_file (tree w') src = Some body
               \<and> imp \<in> set (extract_imports (LANG_HANDLERS [] l) body)
               \<and> resolve_import ''src'' (LANG_HANDLERS [] l) src imp (set (all_files g)) = None
               \<and> (prefix ''.'' imp \<or> CHR ''/'' \<in> set imp
                   \<or> (CHR ''.'' \<in> set imp \<and> (l = java \<or> l = csharp)))))"
    by (elim exE) (rule that)
  note d = c[THEN conjunct2, THEN conjunct1]
  from broken_example_eval d
  have b: "broken = [(''src/a.js'', ''../zz''), (''src/c.cs'', ''Missing.Thing'')]"
    by simp
  show ?thesis
    apply (rule exI[of _ broken])
    apply (rule exI[of _ w'])
    apply (intro conjI)
     apply (rule d)
    apply (rule b)
    done
qed

section \<open>Dead files\<close>

lemma detect_dead_files_set: "set (detect_dead_files files rb) = {f \<in> set files. is_dead rb f}"
  by (simp add: detect_dead_files_def)

lemma detect_dead_files_sorted: "sorted (detect_dead_files files rb)"
  by (simp add: detect_dead_files_def)

text \<open>
  C6. Four files without incoming references: \<open>src/main/java/App.java\<close>, a Java file
  below the source root \<open>src/main\<close>, and \<open>pages/about.js\<close>, a file in a directory
  \<open>pages\<close>, are both reported dead, because the tests for \<open>/src/\<close> and \<open>/pages/\<close>
  need a slash before the segment; the same files one directory deeper
  (\<open>app/src/main/java/App.java\<close>, \<open>web/pages/about.js\<close>) are excluded.
\<close>

theorem detect_dead_files_leading_segment:
  "detect_dead_files [''src/main/java/App.java'', ''pages/about.js'',
                      ''app/src/main/java/App.java'', ''web/pages/about.js''] (\<lambda>f. Some {})
     = [''pages/about.js'', ''src/main/java/App.java'']"
  by code_simp

section \<open>\<open>comment_imports\<close> and the folder in the line\<close>

text \<open>
  C8. A JavaScript file with the lines \<open>import a from './legacy/a'\<close>,
  \<open>import legacy from './other'\<close> and \<open>let x = 1\<close>, and the folder \<open>legacy\<close>:
  \<open>comment_imports\<close> comments out both import lines, also the second one, whose
  specifier \<open>./other\<close> does not hold the folder, because its second loop looks for the
  folder in the whole line. \<open>remove_imports\<close>, which tests the specifier in both loops,
  removes the first line only.
\<close>

theorem comment_imports_tests_whole_line:
  "read_file (tree (snd (comment_imports (LANG_HANDLERS []) (PROJECT_ROOT (tree legacy_example)) ''legacy'' False True False
                           ''20240101_120000'' 9 legacy_example))) ''src/a.js''
     = Some ''// import a from './legacy/a' // removido pelo script\<newline>// import legacy from './other' // removido pelo script\<newline>let x = 1\<newline>''
   \<and> read_file (tree (snd (remove_imports (LANG_HANDLERS []) (PROJECT_ROOT (tree legacy_example)) ''legacy'' False True False
                           ''20240101_120000'' 9 legacy_example))) ''src/a.js''
     = Some ''import legacy from './other'\<newline>let x = 1\<newline>''"
  by code_simp

section \<open>The cache of the scanner\<close>

text \<open>
  C5, as stated, fails: in \<open>stale_example\<close> the cache was written before \<open>b.js\<close> was
  added. The recorded root matches and the one cached path exists with its recorded
  modification time, so the scan with the cache returns the cached list and leaves the
  world as it is, but the list is not, as a set, the list of the walk.
\<close>

theorem stale_cache_counterexample:
  "cache stale_example = Some (Cache (abspath stale_example ''src'') [(''src/a.js'', 1)])
   \<and> entries_ok (tree stale_example) [(''src/a.js'', 1)]
   \<and> build_file_list ''src'' True stale_example = ([''src/a.js''], stale_example)
   \<and> set (fst (build_file_list ''src'' True stale_example))
       \<noteq> set (fst (build_file_list ''src'' False stale_example))"
  by code_simp

text \<open>
  C5, amended. After a scan that walked the tree (its cache lookup gave nothing), the tree
  is unchanged, and a second scan of it returns the list of the walk, with the cache and
  without it; and when every entry that the first scan wrote still checks (the path
  exists with the recorded modification time), the second scan with the cache returns
  from the cache lookup, before any walk.
\<close>

theorem rescan_after_walk:
  assumes "cache_lookup root use_cache w = None"
  shows "tree (snd (build_file_list root use_cache w)) = tree w
     \<and> fst (build_file_list root True (snd (build_file_list root use_cache w)))
         = walk_root (tree w) root
     \<and> fst (build_file_list root False (snd (build_file_list root use_cache w)))
         = walk_root (tree w) root
     \<and> (entries_ok (tree w)
           (map (\<lambda>p. (p, case getmtime (tree w) p of Some m \<Rightarrow> m | None \<Rightarrow> 0))
                (walk_root (tree w) root))
         \<longrightarrow> cache_lookup root True (snd (build_file_list root use_cache w))
               = Some (walk_root (tree w) root))"
proof -
  let ?files = "walk_root (tree w) root"
  let ?entries = "map (\<lambda>p. (p, case getmtime (tree w) p of Some m \<Rightarrow> m | None \<Rightarrow> 0)) ?files"
  let ?w1 = "w\<lparr>cache := Some (Cache (abspath w root) ?entries)\<rparr>"
  have b: "build_file_list root use_cache w = (?files, ?w1)"
    using assms by (simp add: build_file_list_def Let_def)
  have m: "map fst ?entries = ?files"
    by (simp add: o_def)
  have ab: "abspath ?w1 root = abspath w root"
    by (simp add: abspath_def)
  have cl: "cache_lookup root True ?w1
              = (if entries_ok (tree w) ?entries then Some ?files else None)"
    by (simp add: cache_lookup_def ab o_def)
  have clf: "cache_lookup root False ?w1 = None"
    by (simp add: cache_lookup_def)
  have 1: "fst (build_file_list root True ?w1) = ?files"
    by (simp add: build_file_list_def cl Let_def)
  have 2: "fst (build_file_list root False ?w1) = ?files"
    by (simp add: build_file_list_def clf Let_def)
  show ?thesis
    unfolding b snd_conv using 1 2 cl by simp
qed

theorem rescan_after_walk_witness:
  "cache_lookup ''src'' True graph_example = None
   \<and> cache_lookup ''src'' True (snd (build_file_list ''src'' True graph_example))
       = Some [''src/a.js'', ''src/b.js'']
   \<and> fst (build_file_list ''src'' False (snd (build_file_list ''src'' True graph_example)))
       = [''src/a.js'', ''src/b.js'']"
proof -
  have h: "cache_lookup ''src'' True graph_example = None"
    by code_simp
  have e: "entries_ok (tree graph_example)
             (map (\<lambda>p. (p, case getmtime (tree graph_example) p of Some m \<Rightarrow> m | None \<Rightarrow> 0))
                  (walk_root (tree graph_example) ''src''))"
    by code_simp
  have v: "walk_root (tree graph_example) ''src'' = [''src/a.js'', ''src/b.js'']"
    by code_simp
  from rescan_after_walk[OF h] e v h show ?thesis
    by simp
qed

section \<open>Entries of the tree under the operations\<close>

lemma view_nil: "view t [] = Some (shape t)"
  by (simp add: view_def)

lemma view_cons:
  "view (Dir es) (c # cs) = (case map_of es c of None \<Rightarrow> None | Some e \<Rightarrow> view e cs)"
  by (simp add: view_def split: option.splits)

lemma view_file_cons: "view (File x m) (c # cs) = None"
  by (simp add: view_def)

lemma view_file_iff: "view t cs = Some (Some (x, m)) \<longleftrightarrow> lookup t cs = Some (File x m)"
  by (cases "lookup t cs") (auto simp: view_def shape_def split: node.splits)

lemma view_dir_iff: "view t cs = Some None \<longleftrightarrow> (\<exists>es. lookup t cs = Some (Dir es))"
  by (cases "lookup t cs") (auto simp: view_def shape_def split: node.splits)

lemma view_none_iff: "view t cs = None \<longleftrightarrow> lookup t cs = None"
  by (simp add: view_def)

lemma put_file_view:
  "g \<noteq> [] \<Longrightarrow> lookup t g = Some (File a b) \<Longrightarrow>
     \<exists>t'. put g (File x m) t = Some t'
        \<and> (\<forall>cs. view t' cs = (if cs = g then Some (Some (x, m)) else view t cs))"
proof (induction g arbitrary: t)
  case Nil
  then show ?case by simp
next
  case outer: (Cons c g)
  from outer.prems(2) obtain es where t: "t = Dir es"
    by (cases t) simp_all
  with outer.prems(2) obtain e where e: "map_of es c = Some e" and l: "lookup e g = Some (File a b)"
    by (auto split: option.splits)
  show ?case
  proof (cases g)
    case Nil
    with l have ef: "e = File a b" by simp
    have p: "put [c] (File x m) t = Some (Dir (AList.update c (File x m) es))"
      using t by simp
    have v: "view (Dir (AList.update c (File x m) es)) cs
               = (if cs = [c] then Some (Some (x, m)) else view t cs)" for cs
    proof (cases cs)
      case Nil
      then show ?thesis by (simp add: view_nil t shape_def)
    next
      case (Cons k ks)
      show ?thesis
      proof (cases "k = c")
        case True
        show ?thesis
          using Cons True e ef t
          by (cases ks) (simp_all add: view_cons AList.update_conv' view_nil view_file_cons shape_def)
      next
        case False
        then show ?thesis
          using Cons t by (simp add: view_cons AList.update_conv')
      qed
    qed
    from p v Nil show ?thesis by simp
  next
    case (Cons c' g')
    then have ne: "g \<noteq> []" by simp
    from outer.IH[OF ne l] obtain e'
      where p': "put g (File x m) e = Some e'"
        and v': "\<And>cs. view e' cs = (if cs = g then Some (Some (x, m)) else view e cs)"
      by blast
    have p: "put (c # g) (File x m) t = Some (Dir (AList.update c e' es))"
      using t e p' Cons by simp
    have v: "view (Dir (AList.update c e' es)) cs
               = (if cs = c # g then Some (Some (x, m)) else view t cs)" for cs
    proof (cases cs)
      case Nil
      then show ?thesis by (simp add: view_nil t shape_def)
    next
      case (Cons k ks)
      show ?thesis
      proof (cases "k = c")
        case True
        then show ?thesis
          using Cons e t v'[of ks] by (simp add: view_cons AList.update_conv')
      next
        case False
        then show ?thesis
          using Cons t by (simp add: view_cons AList.update_conv')
      qed
    qed
    from p v show ?thesis by blast
  qed
qed

lemma remove_at_view:
  "g \<noteq> [] \<Longrightarrow> lookup t g = Some n \<Longrightarrow>
     \<exists>t'. remove_at g t = Some t'
        \<and> (\<forall>cs. view t' cs = (if prefix g cs then None else view t cs))"
proof (induction g arbitrary: t)
  case Nil
  then show ?case by simp
next
  case outer: (Cons c g)
  from outer.prems(2) obtain es where t: "t = Dir es"
    by (cases t) simp_all
  with outer.prems(2) obtain e where e: "map_of es c = Some e" and l: "lookup e g = Some n"
    by (auto split: option.splits)
  show ?case
  proof (cases g)
    case Nil
    have p: "remove_at [c] t = Some (Dir (AList.delete c es))"
      using t e by simp
    have v: "view (Dir (AList.delete c es)) cs = (if prefix [c] cs then None else view t cs)" for cs
    proof (cases cs)
      case Nil
      then show ?thesis by (simp add: view_nil t shape_def)
    next
      case (Cons k ks)
      then show ?thesis
        using t by (simp add: view_cons AList.delete_conv')
    qed
    from p v Nil show ?thesis by simp
  next
    case (Cons c' g')
    then have ne: "g \<noteq> []" by simp
    from outer.IH[OF ne l] obtain e'
      where p': "remove_at g e = Some e'"
        and v': "\<And>cs. view e' cs = (if prefix g cs then None else view e cs)"
      by blast
    have p: "remove_at (c # g) t = Some (Dir (AList.update c e' es))"
      using t e p' Cons by simp
    have v: "view (Dir (AList.update c e' es)) cs
               = (if prefix (c # g) cs then None else view t cs)" for cs
    proof (cases cs)
      case Nil
      then show ?thesis by (simp add: view_nil t shape_def)
    next
      case (Cons k ks)
      show ?thesis
      proof (cases "k = c")
        case True
        then show ?thesis
          using Cons e t v'[of ks] by (simp add: view_cons AList.update_conv')
      next
        case False
        then show ?thesis
          using Cons t by (simp add: view_cons AList.update_conv')
      qed
    qed
    from p v show ?thesis by blast
  qed
qed

lemma put_new_view:
  "put_new d N t = Some t' \<Longrightarrow> view t cs = Some v \<Longrightarrow> view t' cs = Some v"
proof (induction d arbitrary: t t' cs)
  case Nil
  then show ?case by simp
next
  case outer: (Cons c d)
  from outer.prems(1) obtain es where t: "t = Dir es"
    by (cases t; cases d) simp_all
  show ?case
  proof (cases d)
    case Nil
    with outer.prems(1) t have m: "map_of es c = None" and t': "t' = Dir (AList.update c N es)"
      by (auto split: option.splits)
    show ?thesis
    proof (cases cs)
      case Nil
      with outer.prems(2) show ?thesis by (simp add: view_nil t t' shape_def)
    next
      case (Cons k ks)
      show ?thesis
      proof (cases "k = c")
        case True
        with outer.prems(2) Cons t m show ?thesis by (simp add: view_cons)
      next
        case False
        with outer.prems(2) Cons t t' show ?thesis by (simp add: view_cons AList.update_conv')
      qed
    qed
  next
    case (Cons c' d')
    let ?e0 = "case map_of es c of None \<Rightarrow> Dir [] | Some e \<Rightarrow> e"
    from outer.prems(1) t Cons obtain e' where p': "put_new d N ?e0 = Some e'"
      and t': "t' = Dir (AList.update c e' es)"
      by (auto split: option.splits)
    show ?thesis
    proof (cases cs)
      case Nil
      with outer.prems(2) show ?thesis by (simp add: view_nil t t' shape_def)
    next
      case cs: (Cons k ks)
      show ?thesis
      proof (cases "k = c")
        case True
        with outer.prems(2) cs t obtain e where e: "map_of es c = Some e" and ve: "view e ks = Some v"
          by (auto simp: view_cons split: option.splits)
        from p' e have "put_new d N e = Some e'" by simp
        from outer.IH[OF this ve] have "view e' ks = Some v" .
        then show ?thesis
          using True cs t' by (simp add: view_cons AList.update_conv')
      next
        case False
        with outer.prems(2) cs t t' show ?thesis by (simp add: view_cons AList.update_conv')
      qed
    qed
  qed
qed

lemma put_none:
  "put d n t = Some t' \<Longrightarrow> lookup t s = None \<Longrightarrow> \<not> prefix d s \<Longrightarrow> lookup t' s = None"
proof (induction d arbitrary: t t' s)
  case Nil
  then show ?case by simp
next
  case outer: (Cons c d)
  from outer.prems(1) obtain es where t: "t = Dir es"
    by (cases t; cases d) simp_all
  show ?case
  proof (cases s)
    case Nil
    with outer.prems(2) show ?thesis by simp
  next
    case s: (Cons k ks)
    show ?thesis
    proof (cases d)
      case Nil
      with outer.prems(1) t have t': "t' = Dir (AList.update c n es)" by simp
      from outer.prems(3) s Nil have "k \<noteq> c" by auto
      with outer.prems(2) s t t' show ?thesis by (simp add: AList.update_conv')
    next
      case (Cons c' d')
      with outer.prems(1) t obtain e e' where e: "map_of es c = Some e"
        and p': "put d n e = Some e'" and t': "t' = Dir (AList.update c e' es)"
        by (auto split: option.splits)
      show ?thesis
      proof (cases "k = c")
        case True
        with outer.prems(2) s t e have l: "lookup e ks = None" by simp
        from outer.prems(3) s True have np: "\<not> prefix d ks" by simp
        from outer.IH[OF p' l np] show ?thesis
          using True s t' by (simp add: AList.update_conv')
      next
        case False
        with outer.prems(2) s t t' show ?thesis by (simp add: AList.update_conv')
      qed
    qed
  qed
qed

lemma read_file_view:
  "read_file t p = (case fs_path p of None \<Rightarrow> None
                    | Some cs \<Rightarrow> (case view t cs of Some (Some (x, m)) \<Rightarrow> Some x | _ \<Rightarrow> None))"
  by (auto simp: read_file_def node_at_def view_def shape_def split: option.splits node.splits)

lemma path_exists_view:
  "path_exists t p \<longleftrightarrow> (case fs_path p of None \<Rightarrow> False | Some cs \<Rightarrow> view t cs \<noteq> None)"
  by (auto simp: path_exists_def node_at_def view_def split: option.splits)

lemma isdir_view:
  "isdir t p \<longleftrightarrow> (case fs_path p of None \<Rightarrow> False | Some cs \<Rightarrow> view t cs = Some None)"
  by (auto simp: isdir_def node_at_def view_def shape_def split: option.splits node.splits)

lemma fs_path_dot: "fs_path ''.'' = Some []"
  by code_simp

lemma root_dir_view: "isdir t ''.'' \<longleftrightarrow> view t [] = Some None"
  by (simp add: isdir_view fs_path_dot)

lemma below_file: "view t g = Some (Some v) \<Longrightarrow> prefix g cs \<Longrightarrow> cs \<noteq> g \<Longrightarrow> view t cs = None"
proof (induction g arbitrary: t cs)
  case Nil
  then obtain x m where "t = File x m"
    by (cases t) (auto simp: view_nil shape_def)
  with Nil show ?case by (cases cs) (simp_all add: view_file_cons)
next
  case (Cons c g)
  from Cons.prems(1) obtain es where t: "t = Dir es"
    by (cases t) (simp_all add: view_file_cons)
  from Cons.prems(2,3) obtain ks where cs: "cs = c # ks" and p: "prefix g ks" and ne: "ks \<noteq> g"
    by (cases cs) auto
  from Cons.prems(1) t obtain e where e: "map_of es c = Some e" and ve: "view e g = Some (Some v)"
    by (auto simp: view_cons split: option.splits)
  from Cons.IH[OF ve p ne] show ?case
    using cs t e by (simp add: view_cons)
qed

text \<open>Writing a file that can be read.\<close>

lemma write_file_view:
  assumes root: "view t [] = Some None" and r: "read_file t f = Some a"
  shows "\<exists>t' g. fs_path f = Some g \<and> write_file t f x m = Some t'
           \<and> (\<forall>cs. view t' cs = (if cs = g then Some (Some (x, m)) else view t cs))"
proof -
  from r obtain g b where g: "fs_path f = Some g" and l: "lookup t g = Some (File a b)"
    by (auto simp: read_file_def node_at_def split: option.splits node.splits)
  have ne: "g \<noteq> []"
  proof
    assume "g = []"
    with l have "view t [] = Some (Some (a, b))" by (simp add: view_file_iff)
    with root show False by simp
  qed
  from put_file_view[OF ne l, of x m] obtain t'
    where p: "put g (File x m) t = Some t'"
      and v: "\<forall>cs. view t' cs = (if cs = g then Some (Some (x, m)) else view t cs)"
    by blast
  have "write_file t f x m = Some t'"
    using g l p by (simp add: write_file_def)
  with g v show ?thesis by blast
qed

text \<open>A step that rewrites the file it names, or leaves the tree.\<close>

lemma rewrite_step:
  assumes root: "view t [] = Some None"
      and t': "t' = (case read_file t f of None \<Rightarrow> t
                     | Some a \<Rightarrow> (case G a of None \<Rightarrow> t
                                  | Some y \<Rightarrow> (case write_file t f y m of None \<Rightarrow> t | Some u \<Rightarrow> u)))"
  shows "view t' [] = Some None"
    and "Some cs \<noteq> fs_path f \<Longrightarrow> view t' cs = view t cs"
    and "read_file t' f = (case read_file t f of None \<Rightarrow> None
                           | Some a \<Rightarrow> (case G a of None \<Rightarrow> Some a | Some y \<Rightarrow> Some y))"
proof -
  have "view t' [] = Some None
      \<and> (Some cs \<noteq> fs_path f \<longrightarrow> view t' cs = view t cs)
      \<and> read_file t' f = (case read_file t f of None \<Rightarrow> None
                           | Some a \<Rightarrow> (case G a of None \<Rightarrow> Some a | Some y \<Rightarrow> Some y))"
  proof (cases "read_file t f")
    case None
    with t' root show ?thesis by simp
  next
    case (Some a)
    show ?thesis
    proof (cases "G a")
      case None
      with Some t' root show ?thesis by simp
    next
      case Y: (Some y)
      from write_file_view[OF root Some, of y m] obtain u g
        where g: "fs_path f = Some g" and w: "write_file t f y m = Some u"
          and v: "\<And>cs. view u cs = (if cs = g then Some (Some (y, m)) else view t cs)"
        by blast
      have tu: "t' = u" using t' Some Y w by simp
      have ne: "g \<noteq> []"
      proof
        assume "g = []"
        with Some g root show False by (simp add: read_file_view)
      qed
      have 1: "view u [] = Some None" using v[of "[]"] ne root by simp
      have 2: "Some cs \<noteq> fs_path f \<longrightarrow> view u cs = view t cs" using v[of cs] g by auto
      have 3: "read_file u f = Some y" using v[of g] g by (simp add: read_file_view)
      from 1 2 3 show ?thesis unfolding tu by (simp add: Some Y)
    qed
  qed
  then show "view t' [] = Some None"
    and "Some cs \<noteq> fs_path f \<Longrightarrow> view t' cs = view t cs"
    and "read_file t' f = (case read_file t f of None \<Rightarrow> None
                           | Some a \<Rightarrow> (case G a of None \<Rightarrow> Some a | Some y \<Rightarrow> Some y))"
    by simp_all
qed

lemma read_file_frame:
  assumes "\<And>cs. Some cs \<noteq> q \<Longrightarrow> view t' cs = view t cs" and "fs_path p \<noteq> q"
  shows "read_file t' p = read_file t p"
proof (cases "fs_path p")
  case None
  then show ?thesis by (simp add: read_file_view)
next
  case (Some cs)
  with assms(2) have "Some cs \<noteq> q" by simp
  from assms(1)[OF this] Some show ?thesis by (simp add: read_file_view)
qed

text \<open>A loop of such steps over files that are named once.\<close>

lemma fold_steps:
  assumes root: "\<And>f t. view t [] = Some None \<Longrightarrow> view (step f t) [] = Some None"
      and frame: "\<And>f t cs. view t [] = Some None \<Longrightarrow> Some cs \<noteq> fs_path f
                    \<Longrightarrow> view (step f t) cs = view t cs"
      and own: "\<And>f t. view t [] = Some None \<Longrightarrow> read_file (step f t) f = R f (read_file t f)"
  shows "view t [] = Some None \<Longrightarrow> distinct (map fs_path fs) \<Longrightarrow>
           view (fold step fs t) [] = Some None
         \<and> (\<forall>f\<in>set fs. read_file (fold step fs t) f = R f (read_file t f))
         \<and> (\<forall>cs. Some cs \<notin> fs_path ` set fs \<longrightarrow> view (fold step fs t) cs = view t cs)"
proof (induction fs arbitrary: t)
  case Nil
  then show ?case by simp
next
  case (Cons a fs)
  let ?t1 = "step a t"
  have r1: "view ?t1 [] = Some None" using root[OF Cons.prems(1)] .
  from Cons.prems(2) have d: "distinct (map fs_path fs)" and na: "fs_path a \<notin> fs_path ` set fs"
    by auto
  from Cons.IH[OF r1 d]
  have ihr: "view (fold step fs ?t1) [] = Some None"
    and ih: "\<And>f. f \<in> set fs \<Longrightarrow> read_file (fold step fs ?t1) f = R f (read_file ?t1 f)"
    and ihf: "\<And>cs. Some cs \<notin> fs_path ` set fs \<Longrightarrow> view (fold step fs ?t1) cs = view ?t1 cs"
    by auto
  have f1: "\<And>cs. Some cs \<noteq> fs_path a \<Longrightarrow> view ?t1 cs = view t cs"
    using frame[OF Cons.prems(1)] .
  have A: "read_file (fold step (a # fs) t) f = R f (read_file t f)" if "f \<in> set (a # fs)" for f
  proof (cases "f = a")
    case True
    have "read_file (fold step fs ?t1) a = read_file ?t1 a"
    proof (cases "fs_path a")
      case None
      then show ?thesis by (simp add: read_file_view)
    next
      case (Some g)
      with na have "Some g \<notin> fs_path ` set fs" by simp
      from ihf[OF this] Some show ?thesis by (simp add: read_file_view)
    qed
    also have "\<dots> = R a (read_file t a)" using own[OF Cons.prems(1)] .
    finally show ?thesis using True by simp
  next
    case False
    with that have m: "f \<in> set fs" by simp
    have ne: "fs_path f \<noteq> fs_path a"
    proof
      assume e: "fs_path f = fs_path a"
      from m have "fs_path f \<in> fs_path ` set fs" by (rule imageI)
      with e na show False by simp
    qed
    have "read_file ?t1 f = read_file t f"
    proof (rule read_file_frame[where q = "fs_path a"])
      show "\<And>cs. Some cs \<noteq> fs_path a \<Longrightarrow> view ?t1 cs = view t cs" by (rule f1)
      show "fs_path f \<noteq> fs_path a" by (rule ne)
    qed
    with ih[OF m] show ?thesis by simp
  qed
  have B: "view (fold step (a # fs) t) cs = view t cs" if "Some cs \<notin> fs_path ` set (a # fs)" for cs
  proof -
    from that have 1: "Some cs \<notin> fs_path ` set fs" and 2: "Some cs \<noteq> fs_path a" by auto
    from ihf[OF 1] f1[OF 2] show ?thesis by simp
  qed
  from ihr A B show ?case by simp
qed

lemma concat_readlines: "concat (readlines x) = x"
  by (induction x) (auto split: list.splits)

lemma filter_none_dropped: "\<not> list_ex P xs \<Longrightarrow> filter (\<lambda>x. \<not> P x) xs = xs"
  by (induction xs) auto

lemma map_none_changed: "\<not> list_ex P xs \<Longrightarrow> map (\<lambda>x. if P x then h x else x) xs = xs"
  by (induction xs) auto

lemma remove_in_file_step:
  assumes root: "view t [] = Some None"
  shows "view (remove_in_file H folder now f t) [] = Some None"
    and "Some cs \<noteq> fs_path f \<Longrightarrow> view (remove_in_file H folder now f t) cs = view t cs"
    and "read_file (remove_in_file H folder now f t) f =
           (case read_file t f of None \<Rightarrow> None
            | Some a \<Rightarrow> (case detect_language_for_file f of None \<Rightarrow> Some a
                         | Some l \<Rightarrow> Some (concat (filter (\<lambda>line. \<not> line_dropped (H l) folder line)
                                                     (readlines a)))))"
proof -
  let ?G = "\<lambda>a. case detect_language_for_file f of None \<Rightarrow> None
                 | Some l \<Rightarrow> if list_ex (line_dropped (H l) folder) (readlines a)
                             then Some (concat (filter (\<lambda>line. \<not> line_dropped (H l) folder line)
                                                  (readlines a)))
                             else None"
  have e: "remove_in_file H folder now f t =
             (case read_file t f of None \<Rightarrow> t
              | Some a \<Rightarrow> (case ?G a of None \<Rightarrow> t
                           | Some y \<Rightarrow> (case write_file t f y now of None \<Rightarrow> t | Some u \<Rightarrow> u)))"
    by (simp add: remove_in_file_def Let_def split: option.splits)
  note st = rewrite_step[OF root e]
  show "view (remove_in_file H folder now f t) [] = Some None" by (rule st(1))
  show "Some cs \<noteq> fs_path f \<Longrightarrow> view (remove_in_file H folder now f t) cs = view t cs"
    by (rule st(2))
  show "read_file (remove_in_file H folder now f t) f =
           (case read_file t f of None \<Rightarrow> None
            | Some a \<Rightarrow> (case detect_language_for_file f of None \<Rightarrow> Some a
                         | Some l \<Rightarrow> Some (concat (filter (\<lambda>line. \<not> line_dropped (H l) folder line)
                                                     (readlines a)))))"
    unfolding st(3)
    by (auto split: option.splits simp: filter_none_dropped concat_readlines)
qed

lemma comment_in_file_step:
  assumes root: "view t [] = Some None"
  shows "view (comment_in_file H folder now f t) [] = Some None"
    and "Some cs \<noteq> fs_path f \<Longrightarrow> view (comment_in_file H folder now f t) cs = view t cs"
    and "read_file (comment_in_file H folder now f t) f =
           (case read_file t f of None \<Rightarrow> None
            | Some a \<Rightarrow> (case detect_language_for_file f of None \<Rightarrow> Some a
                         | Some l \<Rightarrow> Some (concat (map (\<lambda>line. if line_commented (H l) folder line
                                                                  then comment_line l line else line)
                                                     (readlines a)))))"
proof -
  let ?G = "\<lambda>a. case detect_language_for_file f of None \<Rightarrow> None
                 | Some l \<Rightarrow> if list_ex (line_commented (H l) folder) (readlines a)
                             then Some (concat (map (\<lambda>line. if line_commented (H l) folder line
                                                              then comment_line l line else line)
                                                  (readlines a)))
                             else None"
  have e: "comment_in_file H folder now f t =
             (case read_file t f of None \<Rightarrow> t
              | Some a \<Rightarrow> (case ?G a of None \<Rightarrow> t
                           | Some y \<Rightarrow> (case write_file t f y now of None \<Rightarrow> t | Some u \<Rightarrow> u)))"
    by (simp add: comment_in_file_def Let_def split: option.splits)
  note st = rewrite_step[OF root e]
  show "view (comment_in_file H folder now f t) [] = Some None" by (rule st(1))
  show "Some cs \<noteq> fs_path f \<Longrightarrow> view (comment_in_file H folder now f t) cs = view t cs"
    by (rule st(2))
  show "read_file (comment_in_file H folder now f t) f =
           (case read_file t f of None \<Rightarrow> None
            | Some a \<Rightarrow> (case detect_language_for_file f of None \<Rightarrow> Some a
                         | Some l \<Rightarrow> Some (concat (map (\<lambda>line. if line_commented (H l) folder line
                                                                  then comment_line l line else line)
                                                     (readlines a)))))"
    unfolding st(3)
    by (auto split: option.splits simp: map_none_changed concat_readlines)
qed

text \<open>The tree that a snapshot leaves.\<close>

lemma dest_not_empty: "path_join BACKUP_DIR x \<noteq> []"
  by (auto simp: path_join_def BACKUP_DIR_def)

lemma copytree_view:
  "copytree t src dst = Some t1 \<Longrightarrow> view t cs = Some v \<Longrightarrow> view t1 cs = Some v"
  unfolding copytree_def
  by (auto split: option.splits node.splits if_splits prod.splits elim: put_new_view)

lemma create_snapshot_failed_view:
  assumes "fst (create_snapshot pr ts now label t) = []" and "view t cs = Some v"
  shows "view (snd (create_snapshot pr ts now label t)) cs = Some v"
proof (cases "copytree t pr (path_join BACKUP_DIR (snapshot_name ts label))")
  case None
  then show ?thesis using assms(2) by (simp add: create_snapshot_def Let_def)
next
  case (Some t1)
  note c = this
  show ?thesis
  proof (cases "write_file t1 (path_join (path_join BACKUP_DIR (snapshot_name ts label)) META_NAME)
                  (meta_text label ts) now")
    case None
    with c copytree_view[OF c assms(2)] show ?thesis
      by (simp add: create_snapshot_def Let_def)
  next
    case (Some t2)
    with c assms(1) show ?thesis
      by (simp add: create_snapshot_def Let_def dest_not_empty)
  qed
qed

lemma put_root: "put d n t = Some t' \<Longrightarrow> view t' [] = Some None"
  by (cases "(d, n, t)" rule: put.cases)
     (auto simp: view_nil shape_def split: node.splits option.splits)

lemma remove_at_root: "remove_at d t = Some t' \<Longrightarrow> view t' [] = Some None"
  by (cases "(d, t)" rule: remove_at.cases)
     (auto simp: view_nil shape_def split: node.splits option.splits)

lemma try_rmtree_root: "view t [] = Some None \<Longrightarrow> view (try_rmtree p t) [] = Some None"
  by (auto simp: try_rmtree_def rmtree_def split: option.splits node.splits dest: remove_at_root)

lemma fold_try_rmtree_root:
  "view t [] = Some None \<Longrightarrow> view (fold try_rmtree ps t) [] = Some None"
  by (induction ps arbitrary: t) (simp_all add: try_rmtree_root)

lemma create_snapshot_root:
  assumes "view t [] = Some None"
  shows "view (snd (create_snapshot pr ts now label t)) [] = Some None"
proof (cases "copytree t pr (path_join BACKUP_DIR (snapshot_name ts label))")
  case None
  then show ?thesis using assms by (simp add: create_snapshot_def Let_def)
next
  case (Some t1)
  note c = this
  have r1: "view t1 [] = Some None" by (rule copytree_view[OF c assms])
  show ?thesis
  proof (cases "write_file t1 (path_join (path_join BACKUP_DIR (snapshot_name ts label)) META_NAME)
                  (meta_text label ts) now")
    case None
    with c r1 show ?thesis by (simp add: create_snapshot_def Let_def)
  next
    case (Some t2)
    then have "view t2 [] = Some None"
      by (auto simp: write_file_def split: option.splits node.splits dest: put_root)
    then have "view (trim_snapshots t2) [] = Some None"
      by (simp add: trim_snapshots_def Let_def fold_try_rmtree_root)
    with c Some show ?thesis by (simp add: create_snapshot_def Let_def)
  qed
qed

text \<open>The loop that deletes files.\<close>

lemma try_remove_view:
  assumes root: "view t [] = Some None"
  shows "view (try_remove f t) cs =
           (if fs_path f = Some cs \<and> (\<exists>v. view t cs = Some (Some v)) then None else view t cs)"
proof (cases "fs_path f")
  case None
  then show ?thesis by (simp add: try_remove_def os_remove_def)
next
  case (Some g)
  show ?thesis
  proof (cases "\<exists>a b. lookup t g = Some (File a b)")
    case True
    then obtain a b where l: "lookup t g = Some (File a b)" by blast
    then have vg: "view t g = Some (Some (a, b))" by (simp add: view_file_iff)
    have ne: "g \<noteq> []" using vg root by auto
    from remove_at_view[OF ne l] obtain t'
      where r: "remove_at g t = Some t'"
        and v: "\<And>cs. view t' cs = (if prefix g cs then None else view t cs)" by blast
    have e: "try_remove f t = t'"
      using Some l r by (simp add: try_remove_def os_remove_def)
    show ?thesis
    proof (cases "cs = g")
      case True
      with v[of g] vg Some e show ?thesis by simp
    next
      case False
      show ?thesis
      proof (cases "prefix g cs")
        case True
        from below_file[OF vg True False] v[of cs] True False Some e show ?thesis by auto
      next
        case np: False
        with v[of cs] False Some e show ?thesis by auto
      qed
    qed
  next
    case False
    then have "os_remove t f = None"
      using Some by (auto simp: os_remove_def split: option.splits node.splits)
    moreover from False have "\<not> (\<exists>v. view t g = Some (Some v))"
      by (auto simp: view_file_iff)
    ultimately show ?thesis using Some by (auto simp: try_remove_def)
  qed
qed

lemma try_remove_root: "view t [] = Some None \<Longrightarrow> view (try_remove f t) [] = Some None"
  by (simp add: try_remove_view)

lemma fold_try_remove_none:
  "view t [] = Some None \<Longrightarrow> view t g = None \<Longrightarrow> view (fold try_remove fs t) g = None"
proof (induction fs arbitrary: t)
  case Nil
  then show ?case by simp
next
  case (Cons a fs)
  have "view (try_remove a t) g = None"
    using Cons.prems by (simp add: try_remove_view)
  from Cons.IH[OF try_remove_root[OF Cons.prems(1)] this] show ?case by simp
qed

lemma fold_try_remove_gone:
  "view t [] = Some None \<Longrightarrow> f \<in> set fs \<Longrightarrow> fs_path f = Some g
   \<Longrightarrow> view t g = None \<or> (\<exists>v. view t g = Some (Some v))
   \<Longrightarrow> view (fold try_remove fs t) g = None"
proof (induction fs arbitrary: t)
  case Nil
  then show ?case by simp
next
  case (Cons a fs)
  note r1 = try_remove_root[OF Cons.prems(1)]
  show ?case
  proof (cases "a = f")
    case True
    have "view (try_remove f t) g = None"
      using Cons.prems(1,3,4) by (auto simp: try_remove_view)
    from fold_try_remove_none[OF r1[where f = a] ] this True show ?thesis
      by (simp add: fold_try_remove_none try_remove_root Cons.prems(1))
  next
    case False
    with Cons.prems(2) have m: "f \<in> set fs" by simp
    have "view (try_remove a t) g = None \<or> (\<exists>v. view (try_remove a t) g = Some (Some v))"
      using Cons.prems(1,4) by (auto simp: try_remove_view)
    from Cons.IH[OF r1 m Cons.prems(3) this] show ?thesis by simp
  qed
qed

text \<open>The move.\<close>

lemma os_rename_gone:
  assumes "os_rename t src dst = Some t1" and "fs_path src \<noteq> fs_path dst"
  shows "\<not> path_exists t1 src"
proof -
  from assms(1) obtain s d n where s: "fs_path src = Some s" and d: "fs_path dst = Some d"
    and l: "lookup t s = Some n"
    by (auto simp: os_rename_def split: option.splits prod.splits)
  from assms(2) s d have sd: "s \<noteq> d" by simp
  from assms(1) s d l sd have ne: "s \<noteq> []" and np: "\<not> prefix d s"
    by (auto simp: os_rename_def split: if_splits)
  from remove_at_view[OF ne l] obtain t'
    where r: "remove_at s t = Some t'"
      and v: "\<And>cs. view t' cs = (if prefix s cs then None else view t cs)" by blast
  from v[of s] have l': "lookup t' s = None" by (simp add: view_none_iff)
  from assms(1) s d l sd r have "put d n t' = Some t1"
    by (auto simp: os_rename_def split: if_splits)
  from put_none[OF this l' np] show ?thesis
    using s by (simp add: path_exists_def node_at_def)
qed

lemma remove_at_exists: "remove_at s t = Some t' \<Longrightarrow> lookup t s \<noteq> None"
proof (induction s t arbitrary: t' rule: remove_at.induct)
  case (1 n)
  then show ?case by simp
next
  case (2 c n)
  then show ?case by (auto split: node.splits option.splits)
next
  case (3 c c' cs n)
  from "3.prems" obtain es where n: "n = Dir es" by (cases n) simp_all
  from "3.prems" n obtain e where e: "map_of es c = Some e" by (cases "map_of es c") simp_all
  from "3.prems" n e obtain e' where r: "remove_at (c' # cs) e = Some e'"
    by (cases "remove_at (c' # cs) e") simp_all
  from "3.IH"[OF n e r] have "lookup e (c' # cs) \<noteq> None" .
  then show ?case using n e by simp
qed

lemma removed_gone:
  assumes "remove_at s t = Some t'"
  shows "lookup t' s = None"
proof -
  from assms have ne: "s \<noteq> []" by (cases s) simp_all
  from assms have "lookup t s \<noteq> None" by (rule remove_at_exists)
  then obtain n where "lookup t s = Some n" by blast
  from remove_at_view[OF ne this] assms have "view t' s = None" by auto
  then show ?thesis by (simp add: view_none_iff)
qed

lemma move_fallback_gone:
  assumes "move_fallback c t src dst real_dst = (True, t3)"
  shows "\<not> path_exists t3 src"
proof -
  from assms obtain t1 s where s: "fs_path src = Some s" and r: "remove_at s t1 = Some t3"
    by (auto simp: move_fallback_def rmtree_def os_remove_def
             split: if_splits option.splits node.splits)
  from removed_gone[OF r] s show ?thesis
    by (simp add: path_exists_def node_at_def)
qed

lemma shutil_move_gone:
  assumes m: "shutil_move c t src dst = (True, t3)" and ne: "fs_path src \<noteq> fs_path dst"
  shows "\<not> path_exists t3 src"
proof (cases "isdir t dst \<and> samefile t src dst")
  case True
  with ne show ?thesis by (simp add: samefile_def)
next
  case False
  let ?rd = "if isdir t dst then path_join dst (basename (rstrip_by (\<lambda>c. c = CHR ''/'') src))
             else dst"
  from m False have nx: "\<not> (isdir t dst \<and> path_exists t ?rd)"
    by (auto simp: shutil_move_def Let_def split: if_splits)
  show ?thesis
  proof (cases "os_rename t src ?rd")
    case None
    with m False nx have "move_fallback c t src dst ?rd = (True, t3)"
      by (auto simp: shutil_move_def Let_def split: if_splits)
    then show ?thesis by (rule move_fallback_gone)
  next
    case (Some t1)
    with m False nx have t13: "t1 = t3"
      by (auto simp: shutil_move_def Let_def split: if_splits)
    have "fs_path src \<noteq> fs_path ?rd"
    proof (cases "isdir t dst")
      case True
      with nx have a: "\<not> path_exists t ?rd" by simp
      from Some have b: "path_exists t src"
        by (auto simp: os_rename_def path_exists_def node_at_def split: option.splits prod.splits)
      from a b show ?thesis by (auto simp: path_exists_def node_at_def)
    next
      case False
      with ne show ?thesis by simp
    qed
    from os_rename_gone[OF Some this] t13 show ?thesis by simp
  qed
qed

lemma fix_in_file_none: "view t s = None \<Longrightarrow> view (fix_in_file old new now f t) s = None"
proof (cases "read_file t f")
  case None
  assume "view t s = None"
  with None show ?thesis by (simp add: fix_in_file_def)
next
  case (Some a)
  assume n: "view t s = None"
  from Some obtain g b where g: "fs_path f = Some g" and l: "lookup t g = Some (File a b)"
    by (auto simp: read_file_def node_at_def split: option.splits node.splits)
  show ?thesis
  proof (cases "write_file t f (str_replace old new a) now")
    case None
    with Some n show ?thesis by (simp add: fix_in_file_def)
  next
    case W: (Some u)
    then have p: "put g (File (str_replace old new a) now) t = Some u"
      using g l by (simp add: write_file_def)
    then have ne: "g \<noteq> []" by (cases g) simp_all
    from put_file_view[OF ne l, of "str_replace old new a" now] p
    have v: "view u s = (if s = g then Some (Some (str_replace old new a, now)) else view t s)"
      by auto
    have "s \<noteq> g" using n l by (auto simp: view_none_iff)
    with v n Some W show ?thesis by (simp add: fix_in_file_def)
  qed
qed

lemma fold_fix_none:
  "view t s = None \<Longrightarrow> view (fold (fix_in_file old new now) fs t) s = None"
  by (induction fs arbitrary: t) (simp_all add: fix_in_file_none)

section \<open>A snapshot that fails\<close>

lemma tree_build_file_list: "tree (snd (build_file_list root use_cache w)) = tree w"
  by (simp add: build_file_list_def Let_def split: option.splits)

lemma cwd_build_file_list: "cwd (snd (build_file_list root use_cache w)) = cwd w"
  by (simp add: build_file_list_def Let_def split: option.splits)

lemma file_in_failed:
  assumes "fst (create_snapshot pr ts now label t) = []" and "read_file t f = Some x"
  shows "read_file (snd (create_snapshot pr ts now label t)) f = Some x"
proof -
  from assms(2) obtain g m where g: "fs_path f = Some g" and v: "view t g = Some (Some (x, m))"
    by (auto simp: read_file_view split: option.splits)
  from create_snapshot_failed_view[OF assms(1) v] g show ?thesis
    by (simp add: read_file_view)
qed

lemma remove_folder_after_failure:
  assumes ok: "confirmed assume_yes answer"
      and fail: "fst (create_snapshot pr ts now (''remove_folder_'' @ folder) t) = []"
      and dir: "isdir t (path_join pr folder)"
      and ne: "fs_path (path_join pr folder) \<noteq> Some []"
  shows "\<not> path_exists (snd (remove_folder pr folder False assume_yes answer ts now t))
            (path_join pr folder)"
proof -
  let ?p = "path_join pr folder"
  let ?t2 = "snd (create_snapshot pr ts now (''remove_folder_'' @ folder) t)"
  from dir obtain g where g: "fs_path ?p = Some g" and v: "view t g = Some None"
    by (auto simp: isdir_view split: option.splits)
  from ne g have gne: "g \<noteq> []" by simp
  from v obtain es where na: "node_at t ?p = Some (Dir es)"
    using g by (auto simp: view_dir_iff node_at_def)
  from create_snapshot_failed_view[OF fail v] obtain es2 where l2: "lookup ?t2 g = Some (Dir es2)"
    by (auto simp: view_dir_iff)
  from remove_at_view[OF gne l2] obtain t'
    where r: "remove_at g ?t2 = Some t'" and v': "view t' g = None"
    by auto
  have rm: "try_rmtree ?p ?t2 = t'"
    using g l2 r by (simp add: try_rmtree_def rmtree_def)
  have "snd (remove_folder pr folder False assume_yes answer ts now t) = t'"
    using ok na rm by (simp add: remove_folder_def Let_def case_prod_unfold)
  moreover have "\<not> path_exists t' ?p"
    using g v' by (simp add: path_exists_view)
  ultimately show ?thesis by simp
qed

lemma dead_after_failure:
  assumes root: "isdir (tree w) ''.''"
      and fail: "fst (create_snapshot pr ts now ''delete_dead_files'' (tree w)) = []"
      and D: "detect_and_handle_dead H pr False assume_yes answers use_cache ts now w = Some (dead, w')"
      and f: "f \<in> set dead" and c: "confirmed assume_yes (answers f)"
      and r: "read_file (tree w) f \<noteq> None"
  shows "\<not> path_exists (tree w') f"
proof -
  from D obtain g w1 where a: "analyze_project H pr pr use_cache w = Some (g, w1)"
    by (auto simp: detect_and_handle_dead_def split: option.splits)
  then have "w1 = snd (build_file_list pr use_cache w)"
    by (auto simp: analyze_project_def split: prod.splits option.splits)
  then have tw: "tree w1 = tree w" by (simp add: tree_build_file_list)
  let ?dead = "detect_dead_files (all_files g) (referenced_by g)"
  let ?del = "filter (\<lambda>f. confirmed assume_yes (answers f)) ?dead"
  let ?t2 = "snd (create_snapshot pr ts now ''delete_dead_files'' (tree w))"
  from D a have dd: "dead = ?dead"
    by (auto simp: detect_and_handle_dead_def Let_def split: if_splits prod.splits)
  with f have ne: "?dead \<noteq> []" by auto
  from f c dd have fd: "f \<in> set ?del" by simp
  then have ne2: "?del \<noteq> []" by (auto simp: filter_empty_conv)
  from D a ne ne2 tw have w': "w' = w1\<lparr>tree := fold try_remove ?del ?t2\<rparr>"
    by (auto simp: detect_and_handle_dead_def Let_def case_prod_unfold)
  from r obtain x where "read_file (tree w) f = Some x" by blast
  then obtain p m where p: "fs_path f = Some p" and v: "view (tree w) p = Some (Some (x, m))"
    by (auto simp: read_file_view split: option.splits)
  from root have r0: "view (tree w) [] = Some None" by (simp add: root_dir_view)
  have r2: "view ?t2 [] = Some None" by (rule create_snapshot_failed_view[OF fail r0])
  have v2: "view ?t2 p = Some (Some (x, m))" by (rule create_snapshot_failed_view[OF fail v])
  then have "view ?t2 p = None \<or> (\<exists>v. view ?t2 p = Some (Some v))" by simp
  from fold_try_remove_gone[OF r2 fd p this] show ?thesis
    using p by (simp add: w' path_exists_view)
qed

lemma remove_imports_after_failure:
  assumes ok: "confirmed assume_yes answer" and root: "isdir (tree w) ''.''"
      and fail: "fst (create_snapshot pr ts now (''remove_imports_'' @ folder) (tree w)) = []"
      and d: "distinct (map fs_path (fst (remove_imports H pr folder False assume_yes answer ts now w)))"
      and f: "f \<in> set (fst (remove_imports H pr folder False assume_yes answer ts now w))"
      and l: "detect_language_for_file f = Some l" and x: "read_file (tree w) f = Some x"
  shows "read_file (tree (snd (remove_imports H pr folder False assume_yes answer ts now w))) f
           = Some (concat (filter (\<lambda>line. \<not> line_dropped (H l) folder line) (readlines x)))"
proof -
  obtain files w1 where b: "build_file_list pr True w = (files, w1)"
    by (cases "build_file_list pr True w")
  from tree_build_file_list[of pr True w] b have tw: "tree w1 = tree w" by simp
  let ?preview = "remove_preview H (tree w) folder files"
  let ?t2 = "snd (create_snapshot pr ts now (''remove_imports_'' @ folder) (tree w))"
  let ?step = "remove_in_file H folder now"
  let ?R = "\<lambda>f r. case r of None \<Rightarrow> None
              | Some a \<Rightarrow> (case detect_language_for_file f of None \<Rightarrow> Some a
                           | Some l \<Rightarrow> Some (concat (filter (\<lambda>line. \<not> line_dropped (H l) folder line)
                                                       (readlines a))))"
  have p: "fst (remove_imports H pr folder False assume_yes answer ts now w) = ?preview"
    using ok by (simp add: remove_imports_def Let_def b tw case_prod_unfold)
  have s: "tree (snd (remove_imports H pr folder False assume_yes answer ts now w))
             = fold ?step ?preview ?t2"
    using ok by (simp add: remove_imports_def Let_def b tw case_prod_unfold)
  from root have r0: "view (tree w) [] = Some None" by (simp add: root_dir_view)
  have r2: "view ?t2 [] = Some None" by (rule create_snapshot_failed_view[OF fail r0])
  from d p have dp: "distinct (map fs_path ?preview)" by simp
  have "view (fold ?step ?preview ?t2) [] = Some None
         \<and> (\<forall>f\<in>set ?preview. read_file (fold ?step ?preview ?t2) f = ?R f (read_file ?t2 f))
         \<and> (\<forall>cs. Some cs \<notin> fs_path ` set ?preview \<longrightarrow> view (fold ?step ?preview ?t2) cs = view ?t2 cs)"
  proof (rule fold_steps[where step = ?step and R = ?R, OF _ _ _ r2 dp])
    show "\<And>f t. view t [] = Some None \<Longrightarrow> view (?step f t) [] = Some None"
      by (rule remove_in_file_step(1))
    show "\<And>f t cs. view t [] = Some None \<Longrightarrow> Some cs \<noteq> fs_path f \<Longrightarrow> view (?step f t) cs = view t cs"
      by (rule remove_in_file_step(2))
    show "\<And>f t. view t [] = Some None \<Longrightarrow> read_file (?step f t) f = ?R f (read_file t f)"
      by (rule remove_in_file_step(3))
  qed
  then have "read_file (fold ?step ?preview ?t2) f = ?R f (read_file ?t2 f)"
    using f p by simp
  also have "read_file ?t2 f = Some x" by (rule file_in_failed[OF fail x])
  finally show ?thesis by (simp add: s l)
qed

lemma comment_imports_after_failure:
  assumes ok: "confirmed assume_yes answer" and root: "isdir (tree w) ''.''"
      and fail: "fst (create_snapshot pr ts now (''comment_imports_'' @ folder) (tree w)) = []"
      and d: "distinct (map fs_path (fst (comment_imports H pr folder False assume_yes answer ts now w)))"
      and f: "f \<in> set (fst (comment_imports H pr folder False assume_yes answer ts now w))"
      and l: "detect_language_for_file f = Some l" and x: "read_file (tree w) f = Some x"
  shows "read_file (tree (snd (comment_imports H pr folder False assume_yes answer ts now w))) f
           = Some (concat (map (\<lambda>line. if line_commented (H l) folder line
                                        then comment_line l line else line) (readlines x)))"
proof -
  obtain files w1 where b: "build_file_list pr True w = (files, w1)"
    by (cases "build_file_list pr True w")
  from tree_build_file_list[of pr True w] b have tw: "tree w1 = tree w" by simp
  let ?preview = "comment_preview H (tree w) folder files"
  let ?t2 = "snd (create_snapshot pr ts now (''comment_imports_'' @ folder) (tree w))"
  let ?step = "comment_in_file H folder now"
  let ?R = "\<lambda>f r. case r of None \<Rightarrow> None
              | Some a \<Rightarrow> (case detect_language_for_file f of None \<Rightarrow> Some a
                           | Some l \<Rightarrow> Some (concat (map (\<lambda>line. if line_commented (H l) folder line
                                                                    then comment_line l line else line)
                                                       (readlines a))))"
  have p: "fst (comment_imports H pr folder False assume_yes answer ts now w) = ?preview"
    using ok by (simp add: comment_imports_def Let_def b tw case_prod_unfold)
  have s: "tree (snd (comment_imports H pr folder False assume_yes answer ts now w))
             = fold ?step ?preview ?t2"
    using ok by (simp add: comment_imports_def Let_def b tw case_prod_unfold)
  from root have r0: "view (tree w) [] = Some None" by (simp add: root_dir_view)
  have r2: "view ?t2 [] = Some None" by (rule create_snapshot_failed_view[OF fail r0])
  from d p have dp: "distinct (map fs_path ?preview)" by simp
  have "view (fold ?step ?preview ?t2) [] = Some None
         \<and> (\<forall>f\<in>set ?preview. read_file (fold ?step ?preview ?t2) f = ?R f (read_file ?t2 f))
         \<and> (\<forall>cs. Some cs \<notin> fs_path ` set ?preview \<longrightarrow> view (fold ?step ?preview ?t2) cs = view ?t2 cs)"
  proof (rule fold_steps[where step = ?step and R = ?R, OF _ _ _ r2 dp])
    show "\<And>f t. view t [] = Some None \<Longrightarrow> view (?step f t) [] = Some None"
      by (rule comment_in_file_step(1))
    show "\<And>f t cs. view t [] = Some None \<Longrightarrow> Some cs \<noteq> fs_path f \<Longrightarrow> view (?step f t) cs = view t cs"
      by (rule comment_in_file_step(2))
    show "\<And>f t. view t [] = Some None \<Longrightarrow> read_file (?step f t) f = ?R f (read_file t f)"
      by (rule comment_in_file_step(3))
  qed
  then have "read_file (fold ?step ?preview ?t2) f = ?R f (read_file ?t2 f)"
    using f p by simp
  also have "read_file ?t2 f = Some x" by (rule file_in_failed[OF fail x])
  finally show ?thesis by (simp add: s l)
qed

lemma move_after_snapshot:
  assumes ok: "confirmed assume_yes answer"
      and ex: "path_exists (tree w) (normpath (path_join pr src_rel))"
      and ne: "fs_path (normpath (path_join pr src_rel)) \<noteq> fs_path (normpath (path_join pr dest_rel))"
      and mv: "fst (shutil_move (cwd w)
                  (snd (create_snapshot pr ts now (''move_'' @ basename src_rel) (tree w)))
                  (normpath (path_join pr src_rel)) (normpath (path_join pr dest_rel)))"
  shows "\<not> path_exists (tree (snd (move_and_fix H pr src_rel dest_rel False assume_yes answer ts now w)))
            (normpath (path_join pr src_rel))"
proof -
  let ?s = "normpath (path_join pr src_rel)" and ?d = "normpath (path_join pr dest_rel)"
  let ?t2 = "snd (create_snapshot pr ts now (''move_'' @ basename src_rel) (tree w))"
  obtain files w1 where b: "build_file_list pr True w = (files, w1)"
    by (cases "build_file_list pr True w")
  from tree_build_file_list[of pr True w] b have tw: "tree w1 = tree w" by simp
  from cwd_build_file_list[of pr True w] b have cw: "cwd w1 = cwd w" by simp
  from mv obtain t3 where m: "shutil_move (cwd w) ?t2 ?s ?d = (True, t3)"
    by (cases "shutil_move (cwd w) ?t2 ?s ?d") simp
  from shutil_move_gone[OF m ne] have g3: "\<not> path_exists t3 ?s" .
  let ?aff = "sort (remdups (affected_files H pr (tree w) (set files) ?s files))"
  let ?old = "replace_char (CHR 0x5C) (CHR ''/'') (relpath (cwd w) ?s pr)"
  let ?new = "replace_char (CHR 0x5C) (CHR ''/'') (relpath (cwd w) ?d pr)"
  have r: "tree (snd (move_and_fix H pr src_rel dest_rel False assume_yes answer ts now w))
                = fold (fix_in_file ?old ?new now) ?aff t3"
    using ok ex m by (simp add: move_and_fix_def Let_def b tw cw case_prod_unfold)
  show ?thesis
  proof (cases "fs_path ?s")
    case None
    then show ?thesis by (simp add: path_exists_view)
  next
    case (Some g)
    with g3 have "view t3 g = None" by (simp add: path_exists_view)
    from fold_fix_none[OF this] Some show ?thesis
      by (simp add: r path_exists_view)
  qed
qed

text \<open>
  C2, as stated, fails: in \<open>taken_example\<close> the backup directory already holds an entry
  with the name of the snapshot (a second run in the same second). \<open>create_snapshot\<close>
  fails, returning the empty string and the tree as it was, and \<open>remove_folder\<close> still
  deletes the folder \<open>src/legacy\<close> with the file in it.
\<close>

theorem failed_snapshot_counterexample:
  "PROJECT_ROOT taken_example = ''src''
   \<and> create_snapshot ''src'' ''20240101_120000'' 9 ''remove_folder_legacy'' taken_example
       = ([], taken_example)
   \<and> read_file taken_example ''src/legacy/old.js'' = Some ''x''
   \<and> \<not> isdir (snd (remove_folder ''src'' ''legacy'' False True False ''20240101_120000'' 9 taken_example))
          ''src/legacy''
   \<and> read_file (snd (remove_folder ''src'' ''legacy'' False True False ''20240101_120000'' 9 taken_example))
        ''src/legacy/old.js'' = None"
  by code_simp

text \<open>
  C2, amended. When \<open>create_snapshot\<close> fails it returns the empty string, and none of
  its five callers tests that result: each goes on with its destructive step. After a
  failed snapshot, for a working directory that is a directory and a confirmed run
  without \<open>dry_run\<close>:
  \<^item> \<open>remove_folder\<close> deletes the folder (an existing directory other than the working
    directory);
  \<^item> \<open>detect_and_handle_dead\<close> deletes every file of its list that is selected and exists;
  \<^item> \<open>remove_imports\<close> leaves every file of its preview, when the preview names each
    file once, with its text without the lines that hold an import of the folder;
  \<^item> \<open>comment_imports\<close> leaves every such file with these lines commented out;
  \<^item> \<open>move_and_fix\<close> moves the source away, when the move itself succeeds and source
    and destination are not the same entry.
\<close>

theorem failed_snapshot_does_not_abort:
  assumes ok: "confirmed assume_yes answer" and root: "isdir (tree w) ''.''"
  shows
    "(fst (create_snapshot pr ts now (''remove_folder_'' @ folder) (tree w)) = []
        \<longrightarrow> isdir (tree w) (path_join pr folder)
        \<longrightarrow> fs_path (path_join pr folder) \<noteq> Some []
        \<longrightarrow> \<not> path_exists (snd (remove_folder pr folder False assume_yes answer ts now (tree w)))
               (path_join pr folder))
     \<and> (fst (create_snapshot pr ts now ''delete_dead_files'' (tree w)) = []
        \<longrightarrow> (\<forall>dead w' f.
               detect_and_handle_dead H pr False assume_yes answers use_cache ts now w = Some (dead, w')
               \<longrightarrow> f \<in> set dead \<longrightarrow> confirmed assume_yes (answers f)
               \<longrightarrow> read_file (tree w) f \<noteq> None
               \<longrightarrow> \<not> path_exists (tree w') f))
     \<and> (fst (create_snapshot pr ts now (''remove_imports_'' @ folder) (tree w)) = []
        \<longrightarrow> distinct (map fs_path (fst (remove_imports H pr folder False assume_yes answer ts now w)))
        \<longrightarrow> (\<forall>f l x.
               f \<in> set (fst (remove_imports H pr folder False assume_yes answer ts now w))
               \<longrightarrow> detect_language_for_file f = Some l \<longrightarrow> read_file (tree w) f = Some x
               \<longrightarrow> read_file (tree (snd (remove_imports H pr folder False assume_yes answer ts now w))) f
                     = Some (concat (filter (\<lambda>line. \<not> line_dropped (H l) folder line)
                                       (readlines x)))))
     \<and> (fst (create_snapshot pr ts now (''comment_imports_'' @ folder) (tree w)) = []
        \<longrightarrow> distinct (map fs_path (fst (comment_imports H pr folder False assume_yes answer ts now w)))
        \<longrightarrow> (\<forall>f l x.
               f \<in> set (fst (comment_imports H pr folder False assume_yes answer ts now w))
               \<longrightarrow> detect_language_for_file f = Some l \<longrightarrow> read_file (tree w) f = Some x
               \<longrightarrow> read_file (tree (snd (comment_imports H pr folder False assume_yes answer ts now w))) f
                     = Some (concat (map (\<lambda>line. if line_commented (H l) folder line
                                                  then comment_line l line else line)
                                       (readlines x)))))
     \<and> (fst (create_snapshot pr ts now (''move_'' @ basename src_rel) (tree w)) = []
        \<longrightarrow> path_exists (tree w) (normpath (path_join pr src_rel))
        \<longrightarrow> fs_path (normpath (path_join pr src_rel)) \<noteq> fs_path (normpath (path_join pr dest_rel))
        \<longrightarrow> fst (shutil_move (cwd w)
                   (snd (create_snapshot pr ts now (''move_'' @ basename src_rel) (tree w)))
                   (normpath (path_join pr src_rel)) (normpath (path_join pr dest_rel)))
        \<longrightarrow> \<not> path_exists
               (tree (snd (move_and_fix H pr src_rel dest_rel False assume_yes answer ts now w)))
               (normpath (path_join pr src_rel)))"
proof (intro conjI impI allI)
  assume "fst (create_snapshot pr ts now (''remove_folder_'' @ folder) (tree w)) = []"
    and "isdir (tree w) (path_join pr folder)"
    and "fs_path (path_join pr folder) \<noteq> Some []"
  then show "\<not> path_exists (snd (remove_folder pr folder False assume_yes answer ts now (tree w)))
               (path_join pr folder)"
    by (rule remove_folder_after_failure[OF ok])
next
  fix dead w' f
  assume "fst (create_snapshot pr ts now ''delete_dead_files'' (tree w)) = []"
    and "detect_and_handle_dead H pr False assume_yes answers use_cache ts now w = Some (dead, w')"
    and "f \<in> set dead" and "confirmed assume_yes (answers f)"
    and "read_file (tree w) f \<noteq> None"
  then show "\<not> path_exists (tree w') f"
    by (rule dead_after_failure[OF root])
next
  fix f l x
  assume "fst (create_snapshot pr ts now (''remove_imports_'' @ folder) (tree w)) = []"
    and "distinct (map fs_path (fst (remove_imports H pr folder False assume_yes answer ts now w)))"
    and "f \<in> set (fst (remove_imports H pr folder False assume_yes answer ts now w))"
    and "detect_language_for_file f = Some l" and "read_file (tree w) f = Some x"
  then show "read_file (tree (snd (remove_imports H pr folder False assume_yes answer ts now w))) f
               = Some (concat (filter (\<lambda>line. \<not> line_dropped (H l) folder line) (readlines x)))"
    by (rule remove_imports_after_failure[OF ok root])
next
  fix f l x
  assume "fst (create_snapshot pr ts now (''comment_imports_'' @ folder) (tree w)) = []"
    and "distinct (map fs_path (fst (comment_imports H pr folder False assume_yes answer ts now w)))"
    and "f \<in> set (fst (comment_imports H pr folder False assume_yes answer ts now w))"
    and "detect_language_for_file f = Some l" and "read_file (tree w) f = Some x"
  then show "read_file (tree (snd (comment_imports H pr folder False assume_yes answer ts now w))) f
               = Some (concat (map (\<lambda>line. if line_commented (H l) folder line
                                            then comment_line l line else line) (readlines x)))"
    by (rule comment_imports_after_failure[OF ok root])
next
  assume "fst (create_snapshot pr ts now (''move_'' @ basename src_rel) (tree w)) = []"
    and "path_exists (tree w) (normpath (path_join pr src_rel))"
    and "fs_path (normpath (path_join pr src_rel)) \<noteq> fs_path (normpath (path_join pr dest_rel))"
    and "fst (shutil_move (cwd w)
                (snd (create_snapshot pr ts now (''move_'' @ basename src_rel) (tree w)))
                (normpath (path_join pr src_rel)) (normpath (path_join pr dest_rel)))"
  then show "\<not> path_exists
               (tree (snd (move_and_fix H pr src_rel dest_rel False assume_yes answer ts now w)))
               (normpath (path_join pr src_rel))"
    using move_after_snapshot[OF ok] by blast
qed

theorem failed_snapshot_does_not_abort_witness:
  "PROJECT_ROOT (tree failing_example) = ''src''
   \<and> confirmed True False \<and> isdir (tree failing_example) ''.''
   \<and> fst (create_snapshot ''src'' ''20240101_120000'' 9 (''remove_folder_'' @ ''legacy'')
           (tree failing_example)) = []
   \<and> isdir (tree failing_example) (path_join ''src'' ''legacy'')
   \<and> \<not> path_exists (snd (remove_folder ''src'' ''legacy'' False True False ''20240101_120000'' 9
                           (tree failing_example))) (path_join ''src'' ''legacy'')
   \<and> fst (create_snapshot ''src'' ''20240101_120000'' 9 ''delete_dead_files'' (tree failing_example)) = []
   \<and> (\<exists>w'. detect_and_handle_dead (LANG_HANDLERS []) ''src'' False True (\<lambda>f. False) True
              ''20240101_120000'' 9 failing_example = Some ([''src/a.js''], w')
           \<and> \<not> path_exists (tree w') ''src/a.js'')
   \<and> fst (create_snapshot ''src'' ''20240101_120000'' 9 (''remove_imports_'' @ ''legacy'')
           (tree failing_example)) = []
   \<and> read_file (tree (snd (remove_imports (LANG_HANDLERS []) ''src'' ''legacy'' False True False
                             ''20240101_120000'' 9 failing_example))) ''src/a.js''
       = Some ''let x = 1\<newline>''
   \<and> fst (create_snapshot ''src'' ''20240101_120000'' 9 (''comment_imports_'' @ ''legacy'')
           (tree failing_example)) = []
   \<and> read_file (tree (snd (comment_imports (LANG_HANDLERS []) ''src'' ''legacy'' False True False
                             ''20240101_120000'' 9 failing_example))) ''src/a.js''
       = Some ''// import y from './legacy/old' // removido pelo script\<newline>let x = 1\<newline>''
   \<and> fst (create_snapshot ''src'' ''20240101_120000'' 9 (''move_'' @ basename ''legacy/old.js'')
           (tree failing_example)) = []
   \<and> path_exists (tree failing_example) (normpath (path_join ''src'' ''legacy/old.js''))
   \<and> \<not> path_exists (tree (snd (move_and_fix (LANG_HANDLERS []) ''src'' ''legacy/old.js'' ''moved.js''
                                 False True False ''20240101_120000'' 9 failing_example)))
          (normpath (path_join ''src'' ''legacy/old.js''))"
proof -
  let ?H = "LANG_HANDLERS []" and ?ts = "''20240101_120000''" and ?w = failing_example
  have pr: "PROJECT_ROOT (tree ?w) = ''src''" by code_simp
  have ok: "confirmed True False" by (simp add: confirmed_def)
  have root: "isdir (tree ?w) ''.''" by code_simp
  note T = failed_snapshot_does_not_abort[where assume_yes = True and answer = False and w = ?w
      and pr = "''src''" and ts = ?ts and now = 9 and folder = "''legacy''" and H = ?H
      and answers = "\<lambda>f. False" and use_cache = True and src_rel = "''legacy/old.js''"
      and dest_rel = "''moved.js''", OF ok root]
  note T1 = T[THEN conjunct1, rule_format]
  note T2 = T[THEN conjunct2, THEN conjunct1, rule_format]
  note T3 = T[THEN conjunct2, THEN conjunct2, THEN conjunct1, rule_format]
  note T4 = T[THEN conjunct2, THEN conjunct2, THEN conjunct2, THEN conjunct1, rule_format]
  note T5 = T[THEN conjunct2, THEN conjunct2, THEN conjunct2, THEN conjunct2, rule_format]
  have f1: "fst (create_snapshot ''src'' ?ts 9 (''remove_folder_'' @ ''legacy'') (tree ?w)) = []"
    by code_simp
  have d1: "isdir (tree ?w) (path_join ''src'' ''legacy'')" by code_simp
  have n1: "fs_path (path_join ''src'' ''legacy'') \<noteq> Some []" by code_simp
  note c1 = T1[OF f1 d1 n1]
  have f2: "fst (create_snapshot ''src'' ?ts 9 ''delete_dead_files'' (tree ?w)) = []"
    by code_simp
  have e2: "map_option fst (detect_and_handle_dead ?H ''src'' False True (\<lambda>f. False) True ?ts 9 ?w)
              = Some [''src/a.js'']"
    by code_simp
  then obtain w' where D: "detect_and_handle_dead ?H ''src'' False True (\<lambda>f. False) True ?ts 9 ?w
                             = Some ([''src/a.js''], w')"
    by (cases "detect_and_handle_dead ?H ''src'' False True (\<lambda>f. False) True ?ts 9 ?w") auto
  have m2: "''src/a.js'' \<in> set [''src/a.js'']" by simp
  have r2: "read_file (tree ?w) ''src/a.js'' \<noteq> None" by code_simp
  note c2 = T2[OF f2 D m2 ok r2]
  have f3: "fst (create_snapshot ''src'' ?ts 9 (''remove_imports_'' @ ''legacy'') (tree ?w)) = []"
    by code_simp
  have p3: "fst (remove_imports ?H ''src'' ''legacy'' False True False ?ts 9 ?w) = [''src/a.js'']"
    by code_simp
  have d3: "distinct (map fs_path (fst (remove_imports ?H ''src'' ''legacy'' False True False ?ts 9 ?w)))"
    unfolding p3 by simp
  have m3: "''src/a.js'' \<in> set (fst (remove_imports ?H ''src'' ''legacy'' False True False ?ts 9 ?w))"
    unfolding p3 by simp
  have l: "detect_language_for_file ''src/a.js'' = Some javascript" by code_simp
  have x: "read_file (tree ?w) ''src/a.js'' = Some ''import y from './legacy/old'\<newline>let x = 1\<newline>''"
    by code_simp
  have e3: "concat (filter (\<lambda>line. \<not> line_dropped (?H javascript) ''legacy'' line)
              (readlines ''import y from './legacy/old'\<newline>let x = 1\<newline>'')) = ''let x = 1\<newline>''"
    by code_simp
  note c3 = T3[OF f3 d3 m3 l x, unfolded e3]
  have f4: "fst (create_snapshot ''src'' ?ts 9 (''comment_imports_'' @ ''legacy'') (tree ?w)) = []"
    by code_simp
  have p4: "fst (comment_imports ?H ''src'' ''legacy'' False True False ?ts 9 ?w) = [''src/a.js'']"
    by code_simp
  have d4: "distinct (map fs_path (fst (comment_imports ?H ''src'' ''legacy'' False True False ?ts 9 ?w)))"
    unfolding p4 by simp
  have m4: "''src/a.js'' \<in> set (fst (comment_imports ?H ''src'' ''legacy'' False True False ?ts 9 ?w))"
    unfolding p4 by simp
  have e4: "concat (map (\<lambda>line. if line_commented (?H javascript) ''legacy'' line
                                 then comment_line javascript line else line)
              (readlines ''import y from './legacy/old'\<newline>let x = 1\<newline>''))
            = ''// import y from './legacy/old' // removido pelo script\<newline>let x = 1\<newline>''"
    by code_simp
  note c4 = T4[OF f4 d4 m4 l x, unfolded e4]
  have f5: "fst (create_snapshot ''src'' ?ts 9 (''move_'' @ basename ''legacy/old.js'') (tree ?w)) = []"
    by code_simp
  have x5: "path_exists (tree ?w) (normpath (path_join ''src'' ''legacy/old.js''))" by code_simp
  have n5: "fs_path (normpath (path_join ''src'' ''legacy/old.js''))
              \<noteq> fs_path (normpath (path_join ''src'' ''moved.js''))" by code_simp
  have m5: "fst (shutil_move (cwd ?w)
                   (snd (create_snapshot ''src'' ?ts 9 (''move_'' @ basename ''legacy/old.js'') (tree ?w)))
                   (normpath (path_join ''src'' ''legacy/old.js''))
                   (normpath (path_join ''src'' ''moved.js'')))" by code_simp
  note c5 = T5[OF f5 x5 n5 m5]
  from D c2 have c2': "\<exists>w'. detect_and_handle_dead ?H ''src'' False True (\<lambda>f. False) True ?ts 9 ?w
                             = Some ([''src/a.js''], w') \<and> \<not> path_exists (tree w') ''src/a.js''"
    by blast
  show ?thesis
    apply (intro conjI)
                  apply (rule pr)
                 apply (rule ok)
                apply (rule root)
               apply (rule f1)
              apply (rule d1)
             apply (rule c1)
            apply (rule f2)
           apply (rule c2')
          apply (rule f3)
         apply (rule c3)
        apply (rule f4)
       apply (rule c4)
      apply (rule f5)
     apply (rule x5)
    apply (rule c5)
    done
qed

section \<open>Preview and run of \<open>remove_imports\<close>\<close>

lemma remove_preview_set:
  "f \<in> set (remove_preview H t folder files) \<longleftrightarrow>
     f \<in> set files \<and> (\<exists>l x. detect_language_for_file f = Some l \<and> read_file t f = Some x
                           \<and> text_has_import (H l) folder x)"
  by (induction files) (auto split: option.splits)

lemma text_has_import_iff:
  "text_has_import h folder x \<longleftrightarrow>
     (\<exists>rx\<in>set (import_regexes h). \<exists>r\<in>set (finditer rx x). points_to folder r)"
  by (simp add: text_has_import_def list_ex_iff)

lemma remove_imports_run:
  assumes ok: "confirmed assume_yes answer" and root: "isdir (tree w) ''.''"
      and d: "distinct (map fs_path (fst (remove_imports H pr folder True a0 b0 ts0 now0 w)))"
  shows "(\<forall>f l x. f \<in> set (fst (remove_imports H pr folder True a0 b0 ts0 now0 w))
            \<longrightarrow> detect_language_for_file f = Some l
            \<longrightarrow> read_file (snd (create_snapshot pr ts now (''remove_imports_'' @ folder) (tree w))) f
                  = Some x
            \<longrightarrow> read_file (tree (snd (remove_imports H pr folder False assume_yes answer ts now w))) f
                  = Some (concat (filter (\<lambda>line. \<not> line_dropped (H l) folder line) (readlines x))))
     \<and> (\<forall>p. fs_path p \<notin> fs_path ` set (fst (remove_imports H pr folder True a0 b0 ts0 now0 w))
            \<longrightarrow> read_file (tree (snd (remove_imports H pr folder False assume_yes answer ts now w))) p
                  = read_file (snd (create_snapshot pr ts now (''remove_imports_'' @ folder) (tree w))) p)"
proof -
  obtain files w1 where b: "build_file_list pr True w = (files, w1)"
    by (cases "build_file_list pr True w")
  from tree_build_file_list[of pr True w] b have tw: "tree w1 = tree w" by simp
  let ?preview = "remove_preview H (tree w) folder files"
  let ?t2 = "snd (create_snapshot pr ts now (''remove_imports_'' @ folder) (tree w))"
  let ?step = "remove_in_file H folder now"
  let ?R = "\<lambda>f r. case r of None \<Rightarrow> None
              | Some a \<Rightarrow> (case detect_language_for_file f of None \<Rightarrow> Some a
                           | Some l \<Rightarrow> Some (concat (filter (\<lambda>line. \<not> line_dropped (H l) folder line)
                                                       (readlines a))))"
  have p: "fst (remove_imports H pr folder True a0 b0 ts0 now0 w) = ?preview"
    by (simp add: remove_imports_def Let_def b tw)
  have s: "tree (snd (remove_imports H pr folder False assume_yes answer ts now w))
             = fold ?step ?preview ?t2"
    using ok by (simp add: remove_imports_def Let_def b tw case_prod_unfold)
  from root have r0: "view (tree w) [] = Some None" by (simp add: root_dir_view)
  have r2: "view ?t2 [] = Some None" by (rule create_snapshot_root[OF r0])
  from d p have dp: "distinct (map fs_path ?preview)" by simp
  have F: "view (fold ?step ?preview ?t2) [] = Some None
         \<and> (\<forall>f\<in>set ?preview. read_file (fold ?step ?preview ?t2) f = ?R f (read_file ?t2 f))
         \<and> (\<forall>cs. Some cs \<notin> fs_path ` set ?preview \<longrightarrow> view (fold ?step ?preview ?t2) cs = view ?t2 cs)"
  proof (rule fold_steps[where step = ?step and R = ?R, OF _ _ _ r2 dp])
    show "\<And>f t. view t [] = Some None \<Longrightarrow> view (?step f t) [] = Some None"
      by (rule remove_in_file_step(1))
    show "\<And>f t cs. view t [] = Some None \<Longrightarrow> Some cs \<noteq> fs_path f \<Longrightarrow> view (?step f t) cs = view t cs"
      by (rule remove_in_file_step(2))
    show "\<And>f t. view t [] = Some None \<Longrightarrow> read_file (?step f t) f = ?R f (read_file t f)"
      by (rule remove_in_file_step(3))
  qed
  have A: "read_file (fold ?step ?preview ?t2) f
             = Some (concat (filter (\<lambda>line. \<not> line_dropped (H l) folder line) (readlines x)))"
    if "f \<in> set ?preview" "detect_language_for_file f = Some l" "read_file ?t2 f = Some x" for f l x
  proof -
    from F that(1) have "read_file (fold ?step ?preview ?t2) f = ?R f (read_file ?t2 f)" by simp
    with that(2,3) show ?thesis by simp
  qed
  have B: "read_file (fold ?step ?preview ?t2) q = read_file ?t2 q"
    if "fs_path q \<notin> fs_path ` set ?preview" for q
  proof (cases "fs_path q")
    case None
    then show ?thesis by (simp add: read_file_view)
  next
    case (Some cs)
    with that have "Some cs \<notin> fs_path ` set ?preview" by simp
    with F have "view (fold ?step ?preview ?t2) cs = view ?t2 cs" by simp
    with Some show ?thesis by (simp add: read_file_view)
  qed
  show ?thesis
    unfolding p s
  proof (intro conjI allI impI)
    fix f l x
    assume "f \<in> set ?preview" "detect_language_for_file f = Some l" "read_file ?t2 f = Some x"
    then show "read_file (fold ?step ?preview ?t2) f
             = Some (concat (filter (\<lambda>line. \<not> line_dropped (H l) folder line) (readlines x)))"
      by (rule A)
  next
    fix q
    assume "fs_path q \<notin> fs_path ` set ?preview"
    then show "read_file (fold ?step ?preview ?t2) q = read_file ?t2 q" by (rule B)
  qed
qed

lemma remove_imports_preview:
  "tree (snd (remove_imports H pr folder True assume_yes answer ts now w)) = tree w"
  "fst (remove_imports H pr folder True assume_yes answer ts now w)
     = fst (remove_imports H pr folder False assume_yes' answer' ts' now' w)"
  "f \<in> set (fst (remove_imports H pr folder True assume_yes answer ts now w)) \<longleftrightarrow>
     f \<in> set (fst (build_file_list pr True w))
     \<and> (\<exists>l x. detect_language_for_file f = Some l \<and> read_file (tree w) f = Some x
           \<and> (\<exists>rx\<in>set (import_regexes (H l)). \<exists>r\<in>set (finditer rx x). points_to folder r))"
proof -
  obtain files w1 where b: "build_file_list pr True w = (files, w1)"
    by (cases "build_file_list pr True w")
  from tree_build_file_list[of pr True w] b have tw: "tree w1 = tree w" by simp
  show "tree (snd (remove_imports H pr folder True assume_yes answer ts now w)) = tree w"
    by (simp add: remove_imports_def Let_def b tw)
  show "fst (remove_imports H pr folder True assume_yes answer ts now w)
     = fst (remove_imports H pr folder False assume_yes' answer' ts' now' w)"
    by (simp add: remove_imports_def Let_def b tw case_prod_unfold)
  have "fst (remove_imports H pr folder True assume_yes answer ts now w)
          = remove_preview H (tree w) folder files"
    by (simp add: remove_imports_def Let_def b tw)
  then show "f \<in> set (fst (remove_imports H pr folder True assume_yes answer ts now w)) \<longleftrightarrow>
     f \<in> set (fst (build_file_list pr True w))
     \<and> (\<exists>l x. detect_language_for_file f = Some l \<and> read_file (tree w) f = Some x
           \<and> (\<exists>rx\<in>set (import_regexes (H l)). \<exists>r\<in>set (finditer rx x). points_to folder r))"
    by (simp add: remove_preview_set text_has_import_iff b)
qed

text \<open>
  What the two loops of \<open>remove_imports\<close> do. A dry run leaves the tree of files as it
  was (the scan may write the cache file, which is kept beside the tree). Its preview is
  the preview of a run without \<open>dry_run\<close> on the same world, and a file is in it exactly
  when it is a scanned file with a language whose text, searched as a whole, has a match
  of an import pattern whose first group holds the folder. A confirmed run without
  \<open>dry_run\<close> in a working directory that is a directory, whose preview names each file
  once, leaves every file of the preview with the text that the file has after the
  snapshot, without the lines that, taken alone, have such a match, and leaves every file
  outside the preview with the text that it has after the snapshot.
\<close>

lemma remove_imports_preview_and_run:
  assumes root: "isdir (tree w) ''.''"
  shows
    "tree (snd (remove_imports H pr folder True assume_yes answer ts now w)) = tree w
     \<and> fst (remove_imports H pr folder True assume_yes answer ts now w)
         = fst (remove_imports H pr folder False assume_yes' answer' ts' now' w)
     \<and> (\<forall>f. f \<in> set (fst (remove_imports H pr folder True assume_yes answer ts now w)) \<longleftrightarrow>
              f \<in> set (fst (build_file_list pr True w))
              \<and> (\<exists>l x. detect_language_for_file f = Some l \<and> read_file (tree w) f = Some x
                    \<and> (\<exists>rx\<in>set (import_regexes (H l)). \<exists>r\<in>set (finditer rx x).
                          points_to folder r)))
     \<and> (confirmed assume_yes' answer'
        \<longrightarrow> distinct (map fs_path (fst (remove_imports H pr folder True assume_yes answer ts now w)))
        \<longrightarrow> (\<forall>f l x. f \<in> set (fst (remove_imports H pr folder True assume_yes answer ts now w))
               \<longrightarrow> detect_language_for_file f = Some l
               \<longrightarrow> read_file (snd (create_snapshot pr ts' now' (''remove_imports_'' @ folder) (tree w))) f
                     = Some x
               \<longrightarrow> read_file (tree (snd (remove_imports H pr folder False assume_yes' answer' ts' now' w))) f
                     = Some (concat (filter (\<lambda>line. \<not> line_dropped (H l) folder line)
                                       (readlines x))))
            \<and> (\<forall>p. fs_path p \<notin> fs_path ` set (fst (remove_imports H pr folder True assume_yes answer ts now w))
               \<longrightarrow> read_file (tree (snd (remove_imports H pr folder False assume_yes' answer' ts' now' w))) p
                     = read_file (snd (create_snapshot pr ts' now' (''remove_imports_'' @ folder) (tree w))) p))"
proof (intro conjI impI)
  show "tree (snd (remove_imports H pr folder True assume_yes answer ts now w)) = tree w"
    by (rule remove_imports_preview(1))
  show "fst (remove_imports H pr folder True assume_yes answer ts now w)
         = fst (remove_imports H pr folder False assume_yes' answer' ts' now' w)"
    by (rule remove_imports_preview(2))
  show "\<forall>f. f \<in> set (fst (remove_imports H pr folder True assume_yes answer ts now w)) \<longleftrightarrow>
              f \<in> set (fst (build_file_list pr True w))
              \<and> (\<exists>l x. detect_language_for_file f = Some l \<and> read_file (tree w) f = Some x
                    \<and> (\<exists>rx\<in>set (import_regexes (H l)). \<exists>r\<in>set (finditer rx x).
                          points_to folder r))"
    by (intro allI) (rule remove_imports_preview(3))
next
  assume ok: "confirmed assume_yes' answer'"
    and d: "distinct (map fs_path (fst (remove_imports H pr folder True assume_yes answer ts now w)))"
  from remove_imports_run[OF ok root d]
  show "\<forall>f l x. f \<in> set (fst (remove_imports H pr folder True assume_yes answer ts now w))
               \<longrightarrow> detect_language_for_file f = Some l
               \<longrightarrow> read_file (snd (create_snapshot pr ts' now' (''remove_imports_'' @ folder) (tree w))) f
                     = Some x
               \<longrightarrow> read_file (tree (snd (remove_imports H pr folder False assume_yes' answer' ts' now' w))) f
                     = Some (concat (filter (\<lambda>line. \<not> line_dropped (H l) folder line)
                                       (readlines x)))"
    by (rule conjunct1)
next
  assume ok: "confirmed assume_yes' answer'"
    and d: "distinct (map fs_path (fst (remove_imports H pr folder True assume_yes answer ts now w)))"
  from remove_imports_run[OF ok root d]
  show "\<forall>p. fs_path p \<notin> fs_path ` set (fst (remove_imports H pr folder True assume_yes answer ts now w))
               \<longrightarrow> read_file (tree (snd (remove_imports H pr folder False assume_yes' answer' ts' now' w))) p
                     = read_file (snd (create_snapshot pr ts' now' (''remove_imports_'' @ folder) (tree w))) p"
    by (rule conjunct2)
qed

text \<open>
  In \<open>legacy_example\<close> every import is on one line: the run drops the line that imports
  from the folder, and the snapshot holds the old text.
\<close>

lemma remove_imports_preview_and_run_example:
  "PROJECT_ROOT (tree legacy_example) = ''src''
   \<and> isdir (tree legacy_example) ''.'' \<and> confirmed True False
   \<and> tree (snd (remove_imports (LANG_HANDLERS []) ''src'' ''legacy'' True False False
                   ''20240101_120000'' 9 legacy_example)) = tree legacy_example
   \<and> fst (remove_imports (LANG_HANDLERS []) ''src'' ''legacy'' False True False
             ''20240101_120000'' 9 legacy_example) = [''src/a.js'']
   \<and> read_file (tree (snd (remove_imports (LANG_HANDLERS []) ''src'' ''legacy'' False True False
                             ''20240101_120000'' 9 legacy_example))) ''src/a.js''
       = Some ''import legacy from './other'\<newline>let x = 1\<newline>''
   \<and> read_file (tree (snd (remove_imports (LANG_HANDLERS []) ''src'' ''legacy'' False True False
                             ''20240101_120000'' 9 legacy_example)))
         ''backup_snapshots/20240101_120000remove_imports_legacy/a.js''
       = Some ''import a from './legacy/a'\<newline>import legacy from './other'\<newline>let x = 1\<newline>''"
proof -
  let ?H = "LANG_HANDLERS []" and ?ts = "''20240101_120000''" and ?w = legacy_example
  have pr: "PROJECT_ROOT (tree ?w) = ''src''" by code_simp
  have ok: "confirmed True False" by (simp add: confirmed_def)
  have root: "isdir (tree ?w) ''.''" by code_simp
  note T = remove_imports_preview_and_run[where w = ?w and H = ?H and pr = "''src''"
      and folder = "''legacy''" and assume_yes = False and answer = False and ts = ?ts and now = 9
      and assume_yes' = True and answer' = False and ts' = ?ts and now' = 9, OF root]
  note T1 = T[THEN conjunct1]
  note T2 = T[THEN conjunct2, THEN conjunct1]
  note T4 = T[THEN conjunct2, THEN conjunct2, THEN conjunct2, rule_format]
  have p: "fst (remove_imports ?H ''src'' ''legacy'' True False False ?ts 9 ?w) = [''src/a.js'']"
    by code_simp
  have p': "fst (remove_imports ?H ''src'' ''legacy'' False True False ?ts 9 ?w) = [''src/a.js'']"
    using T2 p by simp
  have d: "distinct (map fs_path (fst (remove_imports ?H ''src'' ''legacy'' True False False ?ts 9 ?w)))"
    unfolding p by simp
  have m: "''src/a.js'' \<in> set (fst (remove_imports ?H ''src'' ''legacy'' True False False ?ts 9 ?w))"
    unfolding p by simp
  have l: "detect_language_for_file ''src/a.js'' = Some javascript" by code_simp
  have x: "read_file (snd (create_snapshot ''src'' ?ts 9 (''remove_imports_'' @ ''legacy'') (tree ?w)))
             ''src/a.js''
           = Some ''import a from './legacy/a'\<newline>import legacy from './other'\<newline>let x = 1\<newline>''"
    by code_simp
  have e: "concat (filter (\<lambda>line. \<not> line_dropped (?H javascript) ''legacy'' line)
              (readlines ''import a from './legacy/a'\<newline>import legacy from './other'\<newline>let x = 1\<newline>''))
            = ''import legacy from './other'\<newline>let x = 1\<newline>''"
    by code_simp
  note c1 = T4[THEN conjunct1, rule_format, OF ok d m l x, unfolded e]
  have n: "fs_path ''backup_snapshots/20240101_120000remove_imports_legacy/a.js''
             \<notin> fs_path ` set (fst (remove_imports ?H ''src'' ''legacy'' True False False ?ts 9 ?w))"
    unfolding p by code_simp
  have y: "read_file (snd (create_snapshot ''src'' ?ts 9 (''remove_imports_'' @ ''legacy'') (tree ?w)))
             ''backup_snapshots/20240101_120000remove_imports_legacy/a.js''
           = Some ''import a from './legacy/a'\<newline>import legacy from './other'\<newline>let x = 1\<newline>''"
    by code_simp
  note c2 = T4[THEN conjunct2, rule_format, OF ok d n, unfolded y]
  show ?thesis
    apply (intro conjI)
          apply (rule pr)
         apply (rule root)
        apply (rule ok)
       apply (rule T1)
      apply (rule p')
     apply (rule c1)
    apply (rule c2)
    done
qed

text \<open>
  C7. In \<open>multiline_example\<close> the only import of the folder \<open>legacy\<close> spans three
  lines. The dry run reports the file \<open>src/a.js\<close> in its preview, because the first loop
  searches the text as a whole. The confirmed run without \<open>dry_run\<close>, whose snapshot
  succeeds, does not act on the file, because the second loop applies the same patterns
  and the same test to each line alone: the file keeps its text, with the import, and its
  modification time. The preview holds a file that the run does not act on.
\<close>

theorem remove_imports_multiline_import:
  "PROJECT_ROOT (tree multiline_example) = ''src''
   \<and> fst (remove_imports (LANG_HANDLERS []) ''src'' ''legacy'' True False False
            ''20240101_120000'' 9 multiline_example) = [''src/a.js'']
   \<and> fst (create_snapshot ''src'' ''20240101_120000'' 9 ''remove_imports_legacy''
            (tree multiline_example)) = ''backup_snapshots/20240101_120000remove_imports_legacy''
   \<and> read_file (tree multiline_example) ''src/a.js''
       = Some ''import {\<newline>  a\<newline>} from './legacy/a'\<newline>let x = 1\<newline>''
   \<and> read_file (tree (snd (remove_imports (LANG_HANDLERS []) ''src'' ''legacy'' False True False
                             ''20240101_120000'' 9 multiline_example))) ''src/a.js''
       = Some ''import {\<newline>  a\<newline>} from './legacy/a'\<newline>let x = 1\<newline>''
   \<and> getmtime (tree multiline_example) ''src/a.js'' = Some 5
   \<and> getmtime (tree (snd (remove_imports (LANG_HANDLERS []) ''src'' ''legacy'' False True False
                             ''20240101_120000'' 9 multiline_example))) ''src/a.js'' = Some 5"
  by code_simp

section \<open>Paths of valid names and entries of the working directory\<close>

lemma split_on_ne: "split_on c s \<noteq> []"
  by (induction s) (auto split: list.splits)

lemma split_on_none: "c \<notin> set x \<Longrightarrow> split_on c x = [x]"
  by (induction x) (auto split: list.splits)

lemma split_on_append: "c \<notin> set a \<Longrightarrow> split_on c (a @ c # r) = a # split_on c r"
  by (induction a) (auto split: list.splits simp: split_on_ne)

lemma valid_name_parts:
  assumes "valid_name x"
  shows "x \<noteq> []" "CHR ''/'' \<notin> set x" "x \<noteq> ''.''" "x \<noteq> ''..''" "\<not> prefix ''/'' x" "\<not> suffix ''/'' x"
    "''.'' \<noteq> x" "''..'' \<noteq> x"
  using assms by (auto simp: valid_name_def prefix_def suffix_def)

lemma path_join_valid: "valid_name a \<Longrightarrow> valid_name x \<Longrightarrow> path_join a x = a @ CHR ''/'' # x"
  by (simp add: path_join_def valid_name_parts)





lemma fs_path_3:
  assumes a: "valid_name a" and b: "valid_name b" and x: "valid_name x"
  shows "fs_path (path_join (path_join a b) x) = Some [a, b, x]"
proof -
  let ?ab = "a @ CHR ''/'' # b"
  let ?p = "?ab @ CHR ''/'' # x"
  have ns: "\<not> suffix ''/'' ?ab"
  proof
    assume "suffix ''/'' ?ab"
    then obtain zs where "?ab = zs @ ''/''" by (auto simp: suffix_def)
    then have "last ?ab = CHR ''/''" by simp
    moreover have "last ?ab = last b" using b by (simp add: valid_name_parts)
    moreover have "last b \<in> set b" using b by (simp add: valid_name_parts)
    ultimately show False using b by (simp add: valid_name_parts)
  qed
  have pj: "path_join (path_join a b) x = ?p"
    using a b x ns by (simp add: path_join_valid path_join_def valid_name_parts)
  have sp: "split_on CHR ''/'' ?p = [a, b, x]"
    using a b x by (simp add: split_on_append split_on_none valid_name_parts)
  have np: "\<not> prefix ''/'' ?p"
    using a by (cases a) (auto simp: valid_name_def)
  have nn: "normpath ?p = ?p"
    using a b x sp np by (simp add: normpath_def Let_def valid_name_parts)
  show ?thesis
    unfolding pj using a b x sp np nn by (simp add: fs_path_def Let_def valid_name_parts)
qed






lemma put_2:
  "lookup t [a] = Some (Dir B) \<Longrightarrow> put [a, x] n t = Some (set_top a (Dir (AList.update x n B)) t)"
  by (cases t) (auto simp: set_top_def split: option.splits)



section \<open>The snapshot store\<close>




lemma node_at_3:
  "valid_name a \<Longrightarrow> valid_name b \<Longrightarrow> valid_name x \<Longrightarrow>
     node_at t (path_join (path_join a b) x) = lookup t [a, b, x]"
  by (simp add: node_at_def fs_path_3)








lemma filter_update_key:
  "filter (\<lambda>p. fst p \<noteq> k) (AList.update k v al) = filter (\<lambda>p. fst p \<noteq> k) al"
  by (induction al) auto


lemma store_names_distinct: "sorted_wrt (<) (names :: string list) \<Longrightarrow> distinct names"
  by (simp add: strict_sorted_iff)
















section \<open>Undo after a snapshot\<close>

text \<open>
  C3. The label \<open>remove_imports_components/legacy\<close>, as \<open>remove_imports\<close> builds it
  for the folder \<open>components/legacy\<close>, holds a slash, so the snapshot is written one
  directory deeper than the directory that \<open>list_snapshots\<close> lists. After
  \<open>create_snapshot\<close> (which succeeds) and the removal of \<open>src/a.js\<close>, \<open>undo_last\<close>
  reports success, but \<open>src/a.js\<close> does not exist: the old content of the project root
  is now under \<open>src/legacy\<close>. With the label \<open>remove_imports_legacy\<close>, which holds
  no slash, the same sequence on the same state brings the file back with its text.
\<close>

theorem undo_after_slash_label:
  "fst (create_snapshot (PROJECT_ROOT slash_example) ''20240101_120000'' 9 ''remove_imports_components/legacy'' slash_example)
     = ''backup_snapshots/20240101_120000remove_imports_components/legacy''
   \<and> read_file slash_example ''src/a.js'' = Some ''x''
   \<and> fst (undo_last (PROJECT_ROOT slash_example) (try_remove ''src/a.js''
         (snd (create_snapshot (PROJECT_ROOT slash_example) ''20240101_120000'' 9 ''remove_imports_components/legacy'' slash_example))))
   \<and> read_file (snd (undo_last (PROJECT_ROOT slash_example) (try_remove ''src/a.js''
         (snd (create_snapshot (PROJECT_ROOT slash_example) ''20240101_120000'' 9 ''remove_imports_components/legacy'' slash_example)))))
        ''src/a.js'' = None
   \<and> read_file (snd (undo_last (PROJECT_ROOT slash_example) (try_remove ''src/a.js''
         (snd (create_snapshot (PROJECT_ROOT slash_example) ''20240101_120000'' 9 ''remove_imports_components/legacy'' slash_example)))))
        ''src/legacy/a.js'' = Some ''x''
   \<and> read_file (snd (undo_last (PROJECT_ROOT slash_example) (try_remove ''src/a.js''
         (snd (create_snapshot (PROJECT_ROOT slash_example) ''20240101_120000'' 9 ''remove_imports_legacy'' slash_example)))))
        ''src/a.js'' = Some ''x''"
  by code_simp

end
